theory Spec2Isabelle
  imports Main "HOL-Library.AList" "HOL-Library.List_Lexorder"
begin

text \<open>
  A model of the two source files of the server: the puzzle engine of \<open>gameLogic.js\<close>
  (region generation, the solver, the placement validator) and the room handlers of
  \<open>index.js\<close>. The transport (socket.io rooms, express, logging) is outside the model:
  a handler returns the events it emits, with their audience, in the order of emission.
\<close>

section \<open>Puzzle engine (gameLogic.js)\<close>

subsection \<open>Grid and random draws\<close>

text \<open>
  A cell of the \<open>regions\<close> array holds \<open>null\<close> or a region id. The id is an
  \<open>int\<close>: \<open>generateRegions\<close> decrements it below zero on a retry of region 0.
  \<open>Undefined\<close> is what JavaScript reads at a column outside a row.
\<close>

datatype cell = Undefined | Null | Region int

type_synonym grid = "cell list list"

definition BOARD_SIZE :: nat where
  "BOARD_SIZE = 8"

definition NUM_REGIONS :: int where
  "NUM_REGIONS = 8"

text \<open>
  \<open>Math.random()\<close> is modelled by a tape: the finite sequence of draws a run makes,
  in order. A draw \<open>Math.floor(Math.random() * n)\<close> is some integer in \<open>[0, n)\<close>; the
  next tape entry, reduced modulo \<open>n\<close>, gives it. A function that needs a draw from
  the empty tape returns \<open>None\<close>: the run has not returned within the draws supplied.
  Every loop of the generator that can run forever makes a draw in each iteration, so
  the tape also bounds them.
\<close>

type_synonym tape = "nat list"

definition emptyRegions :: grid where
  "emptyRegions = replicate BOARD_SIZE (replicate BOARD_SIZE Null)"

definition setCell :: "grid \<Rightarrow> nat \<Rightarrow> nat \<Rightarrow> cell \<Rightarrow> grid" where
  "setCell g row col v = g[row := (g ! row)[col := v]]"

definition wf_grid :: "grid \<Rightarrow> bool" where
  "wf_grid g = (length g = BOARD_SIZE \<and> list_all (\<lambda>r. length r = BOARD_SIZE) g)"

subsection \<open>growRegion\<close>

definition directions :: "(int \<times> int) list" where
  "directions = [(-1, 0), (0, 1), (1, 0), (0, -1)]"

text \<open>
  The \<open>for (const {dr, dc} of directions)\<close> loop of \<open>growRegion\<close> for the cell
  \<open>(row, col)\<close> taken from the queue, with its \<open>break\<close> at the target size. The state
  is the grid, \<open>cellsInRegion\<close> and the queue.
\<close>

fun visitNeighbours ::
  "int \<Rightarrow> nat \<Rightarrow> nat \<Rightarrow> nat \<Rightarrow> (int \<times> int) list \<Rightarrow> grid \<times> nat \<times> (nat \<times> nat) list
    \<Rightarrow> grid \<times> nat \<times> (nat \<times> nat) list" where
  "visitNeighbours regionId targetSize row col [] s = s"
| "visitNeighbours regionId targetSize row col ((dr, dc) # ds) (g, cellsInRegion, queue) =
     (let newRow = int row + dr; newCol = int col + dc in
      if 0 \<le> newRow \<and> newRow < int BOARD_SIZE \<and> 0 \<le> newCol \<and> newCol < int BOARD_SIZE
         \<and> g ! nat newRow ! nat newCol = Null
      then
        (let g' = setCell g (nat newRow) (nat newCol) (Region regionId);
             cells' = cellsInRegion + 1;
             queue' = queue @ [(nat newRow, nat newCol)]
         in if cells' \<ge> targetSize then (g', cells', queue')
            else visitNeighbours regionId targetSize row col ds (g', cells', queue'))
      else visitNeighbours regionId targetSize row col ds (g, cellsInRegion, queue))"

text \<open>
  The \<open>while (queue.length > 0 && cellsInRegion < targetSize)\<close> loop: one draw for
  \<open>randomIndex\<close> per iteration, \<open>queue.splice(randomIndex, 1)\<close>, then the neighbours.
\<close>

fun growLoop ::
  "int \<Rightarrow> nat \<Rightarrow> grid \<times> nat \<times> (nat \<times> nat) list \<Rightarrow> tape \<Rightarrow> ((grid \<times> nat) \<times> tape) option" where
  "growLoop regionId targetSize (g, cellsInRegion, queue) t =
     (if queue \<noteq> [] \<and> cellsInRegion < targetSize then
        (case t of
           [] \<Rightarrow> None
         | x # rest \<Rightarrow>
             (let randomIndex = x mod length queue;
                  (row, col) = queue ! randomIndex;
                  queue' = take randomIndex queue @ drop (Suc randomIndex) queue
              in growLoop regionId targetSize
                   (visitNeighbours regionId targetSize row col directions (g, cellsInRegion, queue'))
                   rest))
      else Some ((g, cellsInRegion), t))"

text \<open>
  \<open>growRegion\<close> writes the start cell, draws \<open>targetSize\<close> in \<open>[3, 12]\<close> and runs the
  loop. It returns the grid as mutated and \<open>cellsInRegion\<close>.
\<close>

fun growRegion :: "grid \<Rightarrow> nat \<Rightarrow> nat \<Rightarrow> int \<Rightarrow> tape \<Rightarrow> ((grid \<times> nat) \<times> tape) option" where
  "growRegion g startRow startCol regionId [] = None"
| "growRegion g startRow startCol regionId (x # rest) =
     growLoop regionId (x mod 10 + 3)
       (setCell g startRow startCol (Region regionId), 1, [(startRow, startCol)]) rest"

subsection \<open>generateRegions\<close>

text \<open>
  The \<open>do ... while (regions[startRow][startCol] !== null)\<close> loop: two draws per
  iteration.
\<close>

fun pickStart :: "grid \<Rightarrow> tape \<Rightarrow> ((nat \<times> nat) \<times> tape) option" where
  "pickStart g (x # y # rest) =
     (let startRow = x mod BOARD_SIZE; startCol = y mod BOARD_SIZE in
      if g ! startRow ! startCol \<noteq> Null then pickStart g rest
      else Some ((startRow, startCol), rest))"
| "pickStart g _ = None"

text \<open>The reset loop of the retry branch: every cell equal to \<open>regionId\<close> becomes \<open>null\<close>.\<close>

definition resetCells :: "grid \<Rightarrow> int \<Rightarrow> grid" where
  "resetCells g regionId = map (map (\<lambda>c. if c = Region regionId then Null else c)) g"

text \<open>
  One iteration of \<open>for (let regionId = 0; regionId < NUM_REGIONS; regionId++)\<close>,
  the increment included. In the retry branch the source runs \<open>regionId--\<close> first and
  compares the cells with the decremented id.
\<close>

definition regionIter ::
  "int \<Rightarrow> grid \<Rightarrow> int set \<Rightarrow> tape \<Rightarrow> (int \<times> grid \<times> int set \<times> tape) option" where
  "regionIter regionId g usedRegionIds t =
     (case pickStart g t of
        None \<Rightarrow> None
      | Some ((startRow, startCol), t1) \<Rightarrow>
          (case growRegion g startRow startCol regionId t1 of
             None \<Rightarrow> None
           | Some ((g', cellsInRegion), t2) \<Rightarrow>
               if cellsInRegion < 3 then
                 (let regionId' = regionId - 1 in
                  Some (regionId' + 1, resetCells g' regionId', usedRegionIds, t2))
               else Some (regionId + 1, g', insert regionId usedRegionIds, t2)))"

lemma pickStart_shorter:
  "pickStart g t = Some (p, t') \<Longrightarrow> length t' < length t"
proof (induction g t rule: pickStart.induct)
  case (1 g x y rest)
  show ?case
  proof (cases "g ! (x mod BOARD_SIZE) ! (y mod BOARD_SIZE) \<noteq> Null")
    case True
    with "1.prems" have "pickStart g rest = Some (p, t')" by simp
    with "1.IH" [OF refl refl True] show ?thesis by simp
  next
    case False
    with "1.prems" show ?thesis by auto
  qed
qed simp_all

declare growLoop.simps [simp del]

lemma growLoop_shorter:
  "growLoop regionId targetSize s t = Some (res, t') \<Longrightarrow> length t' \<le> length t"
proof (induction regionId targetSize s t rule: growLoop.induct)
  case (1 regionId targetSize g cellsInRegion queue t)
  show ?case
  proof (cases "queue \<noteq> [] \<and> cellsInRegion < targetSize")
    case False
    with "1.prems" show ?thesis by (auto simp: growLoop.simps)
  next
    case True
    show ?thesis
    proof (cases t)
      case Nil
      with True "1.prems" show ?thesis by (simp add: growLoop.simps)
    next
      case (Cons x rest)
      obtain row col where rc: "queue ! (x mod length queue) = (row, col)"
        by (cases "queue ! (x mod length queue)")
      from True Cons rc "1.prems"
      have "growLoop regionId targetSize
              (visitNeighbours regionId targetSize row col directions
                (g, cellsInRegion,
                 take (x mod length queue) queue @ drop (Suc (x mod length queue)) queue))
              rest = Some (res, t')"
        by (simp add: growLoop.simps [of _ _ g] Let_def)
      with "1.IH" [OF True Cons refl rc [symmetric] refl] have "length t' \<le> length rest"
        by simp
      with Cons show ?thesis by simp
    qed
  qed
qed

lemma growRegion_shorter:
  "growRegion g startRow startCol regionId t = Some (res, t') \<Longrightarrow> length t' < length t"
  by (cases t) (auto dest: growLoop_shorter)

lemma regionIter_shorter:
  "regionIter regionId g used t = Some (regionId', g', used', t') \<Longrightarrow> length t' < length t"
  unfolding regionIter_def
  by (auto split: option.splits prod.splits if_splits
      dest!: pickStart_shorter growRegion_shorter)

text \<open>
  The \<open>for\<close> loop over the region ids. It ends when \<open>regionId\<close> reaches
  \<open>NUM_REGIONS\<close>; a retry leaves \<open>regionId\<close> as it was.
\<close>

function regionLoop ::
  "int \<Rightarrow> grid \<Rightarrow> int set \<Rightarrow> tape \<Rightarrow> (grid \<times> int set \<times> tape) option" where
  "regionLoop regionId g usedRegionIds t =
     (if regionId < NUM_REGIONS then
        (case regionIter regionId g usedRegionIds t of
           None \<Rightarrow> None
         | Some (regionId', g', used', t') \<Rightarrow> regionLoop regionId' g' used' t')
      else Some (g, usedRegionIds, t))"
  by pat_completeness auto
termination
  by (relation "measure (\<lambda>(regionId, g, used, t). length t)")
     (auto dest: regionIter_shorter)

declare regionLoop.simps [simp del]

text \<open>The scan for a \<open>null\<close> cell after the loop.\<close>

definition allCellsFilled :: "grid \<Rightarrow> bool" where
  "allCellsFilled g =
     list_all (\<lambda>row. list_all (\<lambda>col. g ! row ! col \<noteq> Null) [0..<BOARD_SIZE]) [0..<BOARD_SIZE]"

lemma regionLoop_shorter:
  "regionLoop regionId g used t = Some (g', used', t') \<Longrightarrow> regionId < NUM_REGIONS
     \<Longrightarrow> length t' < length t"
proof (induction regionId g used t rule: regionLoop.induct)
  case (1 regionId g used t)
  from "1.prems" obtain r1 g1 u1 t1 where
    it: "regionIter regionId g used t = Some (r1, g1, u1, t1)"
    and rest: "regionLoop r1 g1 u1 t1 = Some (g', used', t')"
    by (auto simp: regionLoop.simps [of regionId] split: option.splits)
  have lt: "length t1 < length t" using it by (rule regionIter_shorter)
  show ?case
  proof (cases "r1 < NUM_REGIONS")
    case True
    with "1.IH" [OF "1.prems"(2) it refl refl refl rest] lt show ?thesis by simp
  next
    case False
    with rest have "t' = t1" by (simp add: regionLoop.simps)
    with lt show ?thesis by simp
  qed
qed

text \<open>
  \<open>generateRegions\<close>: the loop from the empty grid, then the recursive call of the
  function on itself when a cell is still \<open>null\<close> or the set of used ids has not
  \<open>NUM_REGIONS\<close> members. There is no counter and no error result. Every such
  call is one stack frame deeper in the source; the model has no limit on the depth
  and agrees with the source as far as the engine's stack reaches.
\<close>

function generateRegions :: "tape \<Rightarrow> (grid \<times> tape) option" where
  "generateRegions t =
     (case regionLoop 0 emptyRegions {} t of
        None \<Rightarrow> None
      | Some (g, usedRegionIds, t') \<Rightarrow>
          if \<not> allCellsFilled g \<or> int (card usedRegionIds) \<noteq> NUM_REGIONS
          then generateRegions t'
          else Some (g, t'))"
  by pat_completeness auto
termination
  by (relation "measure length")
     (auto dest: regionLoop_shorter simp: NUM_REGIONS_def)

declare generateRegions.simps [simp del]

subsection \<open>findSolution\<close>

text \<open>
  \<open>isUnderAttack\<close>: some queen of the list is on a diagonal of \<open>(row, col)\<close>.
\<close>

definition isUnderAttack :: "nat \<Rightarrow> nat \<Rightarrow> (nat \<times> nat) list \<Rightarrow> bool" where
  "isUnderAttack row col queens =
     list_ex (\<lambda>queen. \<bar>int (fst queen) - int row\<bar> = \<bar>int (snd queen) - int col\<bar>) queens"

text \<open>
  The variables \<open>findSolution\<close> shares with its inner function \<open>placeQueens\<close>; \<open>sol\<close>
  is the array \<open>solution\<close>. (The array \<open>board\<close> is written nowhere and read nowhere.)
\<close>

record solver =
  usedRegions :: "cell set"
  usedRows :: "nat set"
  usedCols :: "nat set"
  sol :: "(nat \<times> nat) list"

definition place :: "nat \<Rightarrow> nat \<Rightarrow> cell \<Rightarrow> solver \<Rightarrow> solver" where
  "place row col regionId st =
     st\<lparr>usedRows := insert row (usedRows st), usedCols := insert col (usedCols st),
        usedRegions := insert regionId (usedRegions st), sol := sol st @ [(row, col)]\<rparr>"

definition backtrack :: "nat \<Rightarrow> nat \<Rightarrow> cell \<Rightarrow> solver \<Rightarrow> solver" where
  "backtrack row col regionId st =
     st\<lparr>usedRows := usedRows st - {row}, usedCols := usedCols st - {col},
        usedRegions := usedRegions st - {regionId}, sol := butlast (sol st)\<rparr>"

text \<open>
  \<open>placeQueens row\<close> and its loop \<open>for (let col = 0; col < BOARD_SIZE; col++)\<close>, here
  \<open>tryCols\<close> from column \<open>col\<close> on. Both return the boolean of \<open>placeQueens\<close> and the
  shared variables as left behind.
\<close>

function placeQueens :: "grid \<Rightarrow> nat \<Rightarrow> solver \<Rightarrow> bool \<times> solver"
  and tryCols :: "grid \<Rightarrow> nat \<Rightarrow> nat \<Rightarrow> solver \<Rightarrow> bool \<times> solver" where
  "placeQueens regions row st =
     (if row \<ge> BOARD_SIZE then (True, st)
      else if row \<in> usedRows st then placeQueens regions (row + 1) st
      else tryCols regions row 0 st)"
| "tryCols regions row col st =
     (if col < BOARD_SIZE then
        (let regionId = regions ! row ! col in
         if col \<in> usedCols st \<or> regionId \<in> usedRegions st then tryCols regions row (col + 1) st
         else if isUnderAttack row col (sol st) then tryCols regions row (col + 1) st
         else
           (let (found, st') = placeQueens regions (row + 1) (place row col regionId st) in
            if found then (True, st')
            else tryCols regions row (col + 1) (backtrack row col regionId st')))
      else (False, st))"
  by pat_completeness auto
termination
  by (relation "measure (\<lambda>x. case x of
         Inl (regions, row, st) \<Rightarrow> if row \<ge> 8 then 0 else (8 - row) * 10 + 10
       | Inr (regions, row, col, st) \<Rightarrow> (8 - row) * 10 + 9 - col)")
     (auto simp: BOARD_SIZE_def)

declare placeQueens.simps [simp del] tryCols.simps [simp del]

definition initSolver :: solver where
  "initSolver = \<lparr>usedRegions = {}, usedRows = {}, usedCols = {}, sol = []\<rparr>"

definition findSolution :: "grid \<Rightarrow> (nat \<times> nat) list option" where
  "findSolution regions =
     (let (found, st) = placeQueens regions 0 initSolver in
      if found then Some (sol st) else None)"

subsection \<open>generatePuzzleBoard\<close>

record board =
  regions :: grid
  solution :: "(nat \<times> nat) list option"

text \<open>
  One call of \<open>generateRegions\<close>, one call of \<open>findSolution\<close>; \<open>solution\<close> is \<open>None\<close>
  when \<open>findSolution\<close> returns \<open>null\<close>.
\<close>

definition generatePuzzleBoard :: "tape \<Rightarrow> (board \<times> tape) option" where
  "generatePuzzleBoard t =
     (case generateRegions t of
        None \<Rightarrow> None
      | Some (g, t') \<Rightarrow> Some (\<lparr>regions = g, solution = findSolution g\<rparr>, t'))"

subsection \<open>validateQueenPlacement\<close>

datatype js_error = TypeError

datatype validation = Valid | Invalid string

text \<open>
  \<open>regions[row][col]\<close> for indices the caller chose: a row outside the array is
  \<open>undefined\<close>, and indexing it throws; a column outside the row reads \<open>undefined\<close>.
\<close>

definition readCell :: "grid \<Rightarrow> nat \<Rightarrow> nat \<Rightarrow> js_error + cell" where
  "readCell g row col =
     (if row < length g then Inr (if col < length (g ! row) then g ! row ! col else Undefined)
      else Inl TypeError)"

text \<open>\<open>queens.some(queen => board.regions[queen.row][queen.col] === regionId)\<close>\<close>

fun regionTaken :: "grid \<Rightarrow> cell \<Rightarrow> (nat \<times> nat) list \<Rightarrow> js_error + bool" where
  "regionTaken g regionId [] = Inr False"
| "regionTaken g regionId (queen # queens) =
     (case readCell g (fst queen) (snd queen) of
        Inl e \<Rightarrow> Inl e
      | Inr c \<Rightarrow> if c = regionId then Inr True else regionTaken g regionId queens)"

definition validateQueenPlacement ::
  "board \<Rightarrow> nat \<Rightarrow> nat \<Rightarrow> (nat \<times> nat) list \<Rightarrow> js_error + validation" where
  "validateQueenPlacement b row col queens =
     (case readCell (regions b) row col of
        Inl e \<Rightarrow> Inl e
      | Inr regionId \<Rightarrow>
          if list_ex (\<lambda>queen. fst queen = row) queens
          then Inr (Invalid ''There's already a queen in this row'')
          else if list_ex (\<lambda>queen. snd queen = col) queens
          then Inr (Invalid ''There's already a queen in this column'')
          else
            (case regionTaken (regions b) regionId queens of
               Inl e \<Rightarrow> Inl e
             | Inr True \<Rightarrow> Inr (Invalid ''There's already a queen in this region'')
             | Inr False \<Rightarrow>
                 if list_ex (\<lambda>queen. \<bar>int (fst queen) - int row\<bar> = \<bar>int (snd queen) - int col\<bar>) queens
                 then Inr (Invalid ''Queens cannot attack each other diagonally'')
                 else Inr Valid))"

section \<open>Session state machine (index.js)\<close>

subsection \<open>State\<close>

record player =
  playerId :: string
  playerName :: string
  ready :: bool
  queens :: "(nat \<times> nat) list"
  marks :: "(nat \<times> nat) list"

record room =
  roomId :: string
  players :: "player list"
  gameStarted :: bool
  board :: "board option"

text \<open>
  \<open>gameRooms\<close> is a plain object keyed by room id: an association list of its own
  keys, in the order of their creation. \<open>timers\<close> are the callbacks registered with
  \<open>setTimeout\<close> that have not run yet, oldest first; a callback closes over \<open>roomId\<close>
  and \<open>board\<close> and nothing else.
\<close>

record server =
  gameRooms :: "(string \<times> room) list"
  timers :: "(string \<times> board) list"

datatype payload =
    GameCreated string string string
  | Error string
  | GameJoined string string string player
  | PlayerJoined string string
  | PlayerReadyChanged string bool
  | GameCountdown
  | GameStart board
  | InvalidMove string
  | QueenPlaced string nat nat
  | GameWon string string
  | CellMarked string nat nat
  | CellUnmarked string nat nat
  | GameRestarted
  | NewPuzzleRequested
  | PlayerDisconnected string string

text \<open>
  \<open>socket.emit\<close> sends to the caller, \<open>io.to(roomId).emit\<close> to the room,
  \<open>socket.to(roomId).emit\<close> to the room but the caller.
\<close>

datatype event =
    ToSocket string payload
  | ToRoom string payload
  | ToRoomExcept string string payload

definition newPlayer :: "string \<Rightarrow> string \<Rightarrow> player" where
  "newPlayer sid name =
     \<lparr>playerId = sid, playerName = name, ready = False, queens = [], marks = []\<rparr>"

text \<open>\<open>room.players.find(p => p.id === socket.id)\<close>\<close>

definition findPlayer :: "string \<Rightarrow> room \<Rightarrow> player option" where
  "findPlayer sid rm = find (\<lambda>p. playerId p = sid) (players rm)"

text \<open>
  An assignment to a field of the player that \<open>find\<close> returned changes the first
  player of the list with that id.
\<close>

fun updatePlayer :: "string \<Rightarrow> (player \<Rightarrow> player) \<Rightarrow> player list \<Rightarrow> player list" where
  "updatePlayer sid f [] = []"
| "updatePlayer sid f (p # ps) =
     (if playerId p = sid then f p # ps else p # updatePlayer sid f ps)"

text \<open>\<open>room.players.splice(playerIndex, 1)\<close> at the index \<open>findIndex\<close> returned.\<close>

fun removePlayer :: "string \<Rightarrow> player list \<Rightarrow> player list" where
  "removePlayer sid [] = []"
| "removePlayer sid (p # ps) = (if playerId p = sid then ps else p # removePlayer sid ps)"

definition putRoom :: "string \<Rightarrow> room \<Rightarrow> server \<Rightarrow> server" where
  "putRoom rid rm st = st\<lparr>gameRooms := AList.update rid rm (gameRooms st)\<rparr>"

text \<open>
  \<open>gameRooms[roomId]\<close> for an id the client sent. An own key gives the room. A key that
  every object inherits from \<open>Object.prototype\<close> gives a function or the prototype
  itself: a value that is not \<open>undefined\<close> and has no \<open>players\<close> and no true
  \<open>gameStarted\<close>. Any other key gives \<open>undefined\<close>.
\<close>

definition inheritedKeys :: "string list" where
  "inheritedKeys =
     [''constructor'', ''__defineGetter__'', ''__defineSetter__'', ''hasOwnProperty'',
      ''__lookupGetter__'', ''__lookupSetter__'', ''isPrototypeOf'', ''propertyIsEnumerable'',
      ''toString'', ''valueOf'', ''__proto__'', ''toLocaleString'']"

datatype lookup = NoRoom | Inherited | OwnRoom room

definition getRoom :: "server \<Rightarrow> string \<Rightarrow> lookup" where
  "getRoom st rid =
     (case map_of (gameRooms st) rid of
        Some rm \<Rightarrow> OwnRoom rm
      | None \<Rightarrow> if rid \<in> set inheritedKeys then Inherited else NoRoom)"

text \<open>
  \<open>Object.keys(gameRooms)\<close>: the keys that are array indices (canonical decimal
  numerals below \<open>2^32 - 1\<close>, such as a room id of six digits with no leading zero) come
  first, in ascending numeric order, then the other keys in the order of their creation.
\<close>

definition isDigit :: "char \<Rightarrow> bool" where
  "isDigit c = (c \<in> set ''0123456789'')"

definition keyValue :: "string \<Rightarrow> int" where
  "keyValue k = foldl (\<lambda>n c. 10 * n + (of_char c - 48)) 0 k"

definition isIndexKey :: "string \<Rightarrow> bool" where
  "isIndexKey k =
     (k \<noteq> [] \<and> list_all isDigit k \<and> (k = ''0'' \<or> hd k \<noteq> CHR ''0'') \<and> keyValue k < 4294967295)"

definition objectKeys :: "(string \<times> room) list \<Rightarrow> string list" where
  "objectKeys rooms =
     sort_key keyValue (filter isIndexKey (map fst rooms))
     @ filter (\<lambda>k. \<not> isIndexKey k) (map fst rooms)"

text \<open>The reset that \<open>forEach\<close> applies to every player.\<close>

definition resetPlayer :: "player \<Rightarrow> player" where
  "resetPlayer p = p\<lparr>ready := False, queens := [], marks := []\<rparr>"

subsection \<open>Handlers\<close>

text \<open>
  Each handler takes the caller's socket id and the message fields, and returns the
  new state with the events emitted, in order; a handler that can throw returns
  \<open>Inl\<close> of the error instead. \<open>createGame\<close> takes the id that \<open>generateRoomId()\<close>
  returned, six characters out of letters and digits.
\<close>

definition createGame :: "string \<Rightarrow> string \<Rightarrow> string \<Rightarrow> server \<Rightarrow> server \<times> event list" where
  "createGame sid rid name st =
     (putRoom rid \<lparr>roomId = rid, players = [newPlayer sid name], gameStarted = False,
                   board = None\<rparr> st,
      [ToSocket sid (GameCreated rid sid name)])"

text \<open>
  \<open>joinGame\<close>: on an inherited key \<open>room.players.length\<close> reads a property of
  \<open>undefined\<close> and throws.
\<close>

definition joinGame ::
  "string \<Rightarrow> string \<Rightarrow> string \<Rightarrow> server \<Rightarrow> js_error + server \<times> event list" where
  "joinGame sid rid name st =
     (case getRoom st rid of
        NoRoom \<Rightarrow> Inr (st, [ToSocket sid (Error ''Game room not found'')])
      | Inherited \<Rightarrow> Inl TypeError
      | OwnRoom rm \<Rightarrow>
          if length (players rm) \<ge> 2 then Inr (st, [ToSocket sid (Error ''Game room is full'')])
          else
            (let rm' = rm\<lparr>players := players rm @ [newPlayer sid name]\<rparr> in
             Inr (putRoom rid rm' st,
                  [ToSocket sid (GameJoined rid sid name (hd (players rm'))),
                   ToRoomExcept rid sid (PlayerJoined sid name)])))"

text \<open>
  \<open>playerReady\<close> calls \<open>generatePuzzleBoard()\<close> when both players are ready, so it
  reads the tape; \<open>None\<close> when the generator does not return. On an inherited key
  \<open>room.players.find\<close> throws.
\<close>

definition playerReady ::
  "string \<Rightarrow> string \<Rightarrow> bool \<Rightarrow> tape \<Rightarrow> server
     \<Rightarrow> (js_error + server \<times> event list \<times> tape) option" where
  "playerReady sid rid rdy t st =
     (case getRoom st rid of
        NoRoom \<Rightarrow> Some (Inr (st, [ToSocket sid (Error ''Game room not found'')], t))
      | Inherited \<Rightarrow> Some (Inl TypeError)
      | OwnRoom rm \<Rightarrow>
          (case findPlayer sid rm of
             None \<Rightarrow> Some (Inr (st, [], t))
           | Some p \<Rightarrow>
               (let rm1 = rm\<lparr>players := updatePlayer sid (\<lambda>p. p\<lparr>ready := rdy\<rparr>) (players rm)\<rparr>;
                    ev1 = [ToRoom rid (PlayerReadyChanged sid rdy)];
                    allReady = (length (players rm1) = 2 \<and> list_all ready (players rm1))
                in if allReady \<and> \<not> gameStarted rm1 then
                     (case generatePuzzleBoard t of
                        None \<Rightarrow> None
                      | Some (b, t') \<Rightarrow>
                          Some (Inr ((putRoom rid (rm1\<lparr>board := Some b, gameStarted := True\<rparr>) st)
                                       \<lparr>timers := timers st @ [(rid, b)]\<rparr>,
                                     ev1 @ [ToRoom rid GameCountdown], t')))
                   else Some (Inr (putRoom rid rm1 st, ev1, t)))))"

text \<open>The callback of \<open>setTimeout\<close> runs: the oldest pending one, if any.\<close>

definition timerFires :: "server \<Rightarrow> server \<times> event list" where
  "timerFires st =
     (case timers st of
        [] \<Rightarrow> (st, [])
      | (rid, b) # ts \<Rightarrow> (st\<lparr>timers := ts\<rparr>, [ToRoom rid (GameStart b)]))"

text \<open>
  \<open>placeQueen\<close>: \<open>room.board.regions\<close> throws when \<open>board\<close> is \<open>null\<close>, and so does the
  validator on a row outside the grid. Here and in \<open>markCell\<close> the guard is
  \<open>!room || !room.gameStarted\<close>: on an inherited key \<open>room.gameStarted\<close> is not true,
  so the handler answers as for a room that does not exist.
\<close>

definition placeQueen ::
  "string \<Rightarrow> string \<Rightarrow> nat \<Rightarrow> nat \<Rightarrow> server \<Rightarrow> js_error + server \<times> event list" where
  "placeQueen sid rid row col st =
     (case map_of (gameRooms st) rid of
        None \<Rightarrow> Inr (st, [ToSocket sid (Error ''Game not started'')])
      | Some rm \<Rightarrow>
          if \<not> gameStarted rm then Inr (st, [ToSocket sid (Error ''Game not started'')])
          else
            (case findPlayer sid rm of
               None \<Rightarrow> Inr (st, [ToSocket sid (Error ''Player not found'')])
             | Some p \<Rightarrow>
                 (case board rm of
                    None \<Rightarrow> Inl TypeError
                  | Some b \<Rightarrow>
                      (case validateQueenPlacement b row col (queens p) of
                         Inl e \<Rightarrow> Inl e
                       | Inr (Invalid message) \<Rightarrow> Inr (st, [ToSocket sid (InvalidMove message)])
                       | Inr Valid \<Rightarrow>
                           (let rm1 = rm\<lparr>players :=
                                  updatePlayer sid (\<lambda>p. p\<lparr>queens := queens p @ [(row, col)]\<rparr>)
                                    (players rm)\<rparr>;
                                ev1 = [ToRoom rid (QueenPlaced sid row col)]
                            in if length (queens p) + 1 = 8 then
                                 Inr (putRoom rid
                                        (rm1\<lparr>gameStarted := False,
                                             players := map resetPlayer (players rm1)\<rparr>) st,
                                      ev1 @ [ToRoom rid (GameWon sid (playerName p))])
                               else Inr (putRoom rid rm1 st, ev1))))))"

definition markCell :: "string \<Rightarrow> string \<Rightarrow> nat \<Rightarrow> nat \<Rightarrow> server \<Rightarrow> server \<times> event list" where
  "markCell sid rid row col st =
     (case map_of (gameRooms st) rid of
        None \<Rightarrow> (st, [ToSocket sid (Error ''Game not started'')])
      | Some rm \<Rightarrow>
          if \<not> gameStarted rm then (st, [ToSocket sid (Error ''Game not started'')])
          else
            (case findPlayer sid rm of
               None \<Rightarrow> (st, [ToSocket sid (Error ''Player not found'')])
             | Some p \<Rightarrow>
                 if list_ex (\<lambda>q. fst q = row \<and> snd q = col) (queens p)
                 then (st, [ToSocket sid (InvalidMove ''Cell already has a queen'')])
                 else if list_ex (\<lambda>m. fst m = row \<and> snd m = col) (marks p)
                 then
                   (putRoom rid
                      (rm\<lparr>players :=
                           updatePlayer sid
                             (\<lambda>p. p\<lparr>marks := filter (\<lambda>m. \<not> (fst m = row \<and> snd m = col)) (marks p)\<rparr>)
                             (players rm)\<rparr>) st,
                    [ToRoom rid (CellUnmarked sid row col)])
                 else
                   (putRoom rid
                      (rm\<lparr>players :=
                           updatePlayer sid (\<lambda>p. p\<lparr>marks := marks p @ [(row, col)]\<rparr>) (players rm)\<rparr>)
                      st,
                    [ToRoom rid (CellMarked sid row col)])))"

definition resetRoom :: "room \<Rightarrow> room" where
  "resetRoom rm = rm\<lparr>gameStarted := False, board := None, players := map resetPlayer (players rm)\<rparr>"

text \<open>
  \<open>restartGame\<close> and \<open>newPuzzle\<close>: on an inherited key the two assignments write to
  the inherited object, which is no part of the state, and \<open>room.players.forEach\<close>
  throws. (What they write, \<open>gameStarted = false\<close> and \<open>board = null\<close>, reads as
  \<open>undefined\<close> does in every guard of the handlers, so later lookups are as before.)
\<close>

definition restartGame :: "string \<Rightarrow> string \<Rightarrow> server \<Rightarrow> js_error + server \<times> event list" where
  "restartGame sid rid st =
     (case getRoom st rid of
        NoRoom \<Rightarrow> Inr (st, [ToSocket sid (Error ''Game room not found'')])
      | Inherited \<Rightarrow> Inl TypeError
      | OwnRoom rm \<Rightarrow> Inr (putRoom rid (resetRoom rm) st, [ToRoom rid GameRestarted]))"

definition newPuzzle :: "string \<Rightarrow> string \<Rightarrow> server \<Rightarrow> js_error + server \<times> event list" where
  "newPuzzle sid rid st =
     (case getRoom st rid of
        NoRoom \<Rightarrow> Inr (st, [ToSocket sid (Error ''Game room not found'')])
      | Inherited \<Rightarrow> Inl TypeError
      | OwnRoom rm \<Rightarrow> Inr (putRoom rid (resetRoom rm) st, [ToRoom rid NewPuzzleRequested]))"

text \<open>
  \<open>disconnect\<close>: the body of \<open>Object.keys(gameRooms).forEach\<close> for one room id, then
  the loop over the own keys present when the handler starts, in the order of
  \<open>Object.keys\<close>.
\<close>

definition disconnectRoom :: "string \<Rightarrow> string \<Rightarrow> server \<times> event list \<Rightarrow> server \<times> event list" where
  "disconnectRoom sid rid acc =
     (let (st, evs) = acc in
      case map_of (gameRooms st) rid of
        None \<Rightarrow> (st, evs)
      | Some rm \<Rightarrow>
          (case findPlayer sid rm of
             None \<Rightarrow> (st, evs)
           | Some p \<Rightarrow>
               (let rm' = rm\<lparr>players := removePlayer sid (players rm)\<rparr>;
                    evs' = evs @ [ToRoom rid (PlayerDisconnected sid (playerName p))]
                in if players rm' = []
                   then (st\<lparr>gameRooms := AList.delete rid (gameRooms st)\<rparr>, evs')
                   else (putRoom rid rm' st, evs'))))"

definition disconnect :: "string \<Rightarrow> server \<Rightarrow> server \<times> event list" where
  "disconnect sid st =
     foldl (\<lambda>acc rid. disconnectRoom sid rid acc) (st, []) (objectKeys (gameRooms st))"

section \<open>Properties of a region grid\<close>

text \<open>
  The contract of the region generator: an 8 by 8 grid, every cell a region id in
  \<open>[0, 8)\<close>, 8 distinct ids in use, every region of at least 3 cells and 4-connected.
\<close>

definition cellsOf :: "grid \<Rightarrow> int \<Rightarrow> (nat \<times> nat) list" where
  "cellsOf g regionId =
     concat (map (\<lambda>row. map (\<lambda>col. (row, col))
                          (filter (\<lambda>col. g ! row ! col = Region regionId) [0..<BOARD_SIZE]))
                 [0..<BOARD_SIZE])"

definition regionIds :: "grid \<Rightarrow> cell set" where
  "regionIds g = set (concat g)"

definition idInRange :: "cell \<Rightarrow> bool" where
  "idInRange c = (case c of Region i \<Rightarrow> 0 \<le> i \<and> i < NUM_REGIONS | _ \<Rightarrow> False)"

definition adjacent4 :: "nat \<times> nat \<Rightarrow> nat \<times> nat \<Rightarrow> bool" where
  "adjacent4 p q = (\<bar>int (fst p) - int (fst q)\<bar> + \<bar>int (snd p) - int (snd q)\<bar> = 1)"

text \<open>
  \<open>spread n cells reached\<close> adds to \<open>reached\<close>, \<open>n\<close> times, the cells of \<open>cells\<close> with a
  4-neighbour in it. A list of cells is 4-connected when all of it is reached from its
  first cell in as many rounds as it has cells.
\<close>

fun spread :: "nat \<Rightarrow> (nat \<times> nat) list \<Rightarrow> (nat \<times> nat) list \<Rightarrow> (nat \<times> nat) list" where
  "spread 0 cells reached = reached"
| "spread (Suc n) cells reached =
     spread n cells (filter (\<lambda>p. p \<in> set reached \<or> list_ex (adjacent4 p) reached) cells)"

definition connected4 :: "(nat \<times> nat) list \<Rightarrow> bool" where
  "connected4 cells = (case cells of [] \<Rightarrow> True | p # _ \<Rightarrow> spread (length cells) cells [p] = cells)"

definition validRegions :: "grid \<Rightarrow> bool" where
  "validRegions g =
     (wf_grid g \<and> list_all (list_all idInRange) g \<and> card (regionIds g) = 8 \<and>
      list_all (\<lambda>regionId. 3 \<le> length (cellsOf g regionId) \<and> connected4 (cellsOf g regionId))
        [0, 1, 2, 3, 4, 5, 6, 7])"

section \<open>Concrete runs\<close>

text \<open>
  Draws that make \<open>growRegion\<close> fill a block whose top left cell is the start cell,
  when the cells above and to the left of the block are outside the grid or assigned:
  the start cell, the draw for the target size, and the queue indices.
\<close>

definition block2x4 :: "nat \<Rightarrow> nat \<Rightarrow> tape" where
  "block2x4 row col = [row, col, 5, 0, 0, 1, 3]"

definition block3x4 :: "nat \<Rightarrow> nat \<Rightarrow> tape" where
  "block3x4 row col = [row, col, 9, 0, 0, 1, 0, 0, 1, 4]"

definition block3x2 :: "nat \<Rightarrow> nat \<Rightarrow> tape" where
  "block3x2 row col = [row, col, 3, 0, 1, 2]"

definition cells4 :: "int \<Rightarrow> int \<Rightarrow> cell list" where
  "cells4 a b = replicate 4 (Region a) @ replicate 4 (Region b)"

text \<open>Eight blocks of 2 by 4: a grid with a solution.\<close>

definition solvableTape :: tape where
  "solvableTape =
     block2x4 0 0 @ block2x4 0 4 @ block2x4 2 0 @ block2x4 2 4 @
     block2x4 4 0 @ block2x4 4 4 @ block2x4 6 0 @ block2x4 6 4"

definition solvableGrid :: grid where
  "solvableGrid =
     [cells4 0 1, cells4 0 1, cells4 2 3, cells4 2 3,
      cells4 4 5, cells4 4 5, cells4 6 7, cells4 6 7]"

definition solvableSolution :: "(nat \<times> nat) list" where
  "solvableSolution = [(0, 0), (1, 5), (2, 7), (3, 2), (4, 6), (5, 3), (6, 1), (7, 4)]"

definition solvableBoard :: board where
  "solvableBoard = \<lparr>regions = solvableGrid, solution = Some solvableSolution\<rparr>"

text \<open>
  Two blocks of 3 by 4 over rows 0 to 2, then two of 2 by 4 and four of 3 by 2: rows
  0, 1 and 2 lie in two regions, so three queens cannot be placed there.
\<close>

definition unsolvableTape :: tape where
  "unsolvableTape =
     block3x4 0 0 @ block3x4 0 4 @ block2x4 3 0 @ block2x4 3 4 @
     block3x2 5 0 @ block3x2 5 2 @ block3x2 5 4 @ block3x2 5 6"

definition cells2 :: "int \<Rightarrow> int \<Rightarrow> int \<Rightarrow> int \<Rightarrow> cell list" where
  "cells2 a b c d =
     replicate 2 (Region a) @ replicate 2 (Region b) @ replicate 2 (Region c) @ replicate 2 (Region d)"

definition unsolvableGrid :: grid where
  "unsolvableGrid =
     [cells4 0 1, cells4 0 1, cells4 0 1, cells4 2 3, cells4 2 3,
      cells2 4 5 6 7, cells2 4 5 6 7, cells2 4 5 6 7]"

text \<open>
  A run that retries region 7. Regions 0 to 4 are blocks; region 5 is
  \<open>(6,6), (6,7), (7,6)\<close> and cuts off the corner \<open>(7,7)\<close>; region 6 is the 2 by 2 block
  at \<open>(6,4)\<close>. Region 7 starts at the corner, the only cell left, and gets one cell.
\<close>

definition pocketTape :: tape where
  "pocketTape =
     block3x4 0 0 @ block3x4 0 4 @ block3x4 3 0 @ block3x4 3 4 @ block2x4 6 0 @
     [6, 6, 0, 0] @ [6, 4, 1, 0, 0]"

definition retryTape :: tape where
  "retryTape = pocketTape @ [7, 7, 0, 0] @ [6, 4, 1, 0, 0]"

definition pocketGrid :: grid where
  "pocketGrid =
     [cells4 0 1, cells4 0 1, cells4 0 1, cells4 2 3, cells4 2 3, cells4 2 3,
      replicate 4 (Region 4) @ [Region 6, Region 6, Region 5, Region 5],
      replicate 4 (Region 4) @ [Region 6, Region 6, Region 5, Null]]"

definition shortGrid :: grid where
  "shortGrid =
     [cells4 0 1, cells4 0 1, cells4 0 1, cells4 2 3, cells4 2 3, cells4 2 3,
      replicate 4 (Region 4) @ [Null, Null, Region 5, Region 5],
      replicate 4 (Region 4) @ [Null, Null, Region 5, Region 7]]"

definition retryGrid :: grid where
  "retryGrid =
     [cells4 0 1, cells4 0 1, cells4 0 1, cells4 2 3, cells4 2 3, cells4 2 3,
      replicate 4 (Region 4) @ [Region 7, Region 7, Region 5, Region 5],
      replicate 4 (Region 4) @ [Region 7, Region 7, Region 5, Region 7]]"

text \<open>The first \<open>n\<close> iterations of the \<open>for\<close> loop of \<open>generateRegions\<close>.\<close>

fun regionIters ::
  "nat \<Rightarrow> int \<Rightarrow> grid \<Rightarrow> int set \<Rightarrow> tape \<Rightarrow> (int \<times> grid \<times> int set \<times> tape) option" where
  "regionIters 0 regionId g usedRegionIds t = Some (regionId, g, usedRegionIds, t)"
| "regionIters (Suc n) regionId g usedRegionIds t =
     (if regionId < NUM_REGIONS then
        (case regionIter regionId g usedRegionIds t of
           None \<Rightarrow> None
         | Some (regionId', g', used', t') \<Rightarrow> regionIters n regionId' g' used' t')
      else Some (regionId, g, usedRegionIds, t))"

lemma solvable_run: "generateRegions solvableTape = Some (solvableGrid, [])"
  by code_simp

lemma solvable_valid: "validRegions solvableGrid"
  by code_simp

lemma solvable_solution: "findSolution solvableGrid = Some solvableSolution"
  by code_simp

lemma solvable_board: "generatePuzzleBoard solvableTape = Some (solvableBoard, [])"
  by (simp add: generatePuzzleBoard_def solvable_run solvable_solution solvableBoard_def)

section \<open>Lemmas on the session state\<close>

lemma find_updatePlayer:
  "find (\<lambda>p. playerId p = sid) ps = Some p \<Longrightarrow> playerId (f p) = sid
     \<Longrightarrow> find (\<lambda>p. playerId p = sid) (updatePlayer sid f ps) = Some (f p)"
  by (induction ps) (auto split: if_splits)

lemma findPlayer_update:
  assumes "findPlayer sid rm = Some p" and "playerId (f p) = sid"
  shows "findPlayer sid (rm\<lparr>players := updatePlayer sid f (players rm)\<rparr>) = Some (f p)"
proof -
  have "find (\<lambda>p. playerId p = sid) (players rm) = Some p"
    using assms(1) unfolding findPlayer_def .
  from find_updatePlayer [of sid "players rm" p f, OF this assms(2)] show ?thesis
    unfolding findPlayer_def by simp
qed

lemma find_Some_holds: "find P xs = Some x \<Longrightarrow> P x"
  by (induction xs) (auto split: if_splits)

lemma findPlayer_id: "findPlayer sid rm = Some p \<Longrightarrow> playerId p = sid"
  unfolding findPlayer_def by (rule find_Some_holds)

lemma map_of_putRoom: "map_of (gameRooms (putRoom rid rm st)) rid = Some rm"
  by (simp add: putRoom_def update_conv')

definition marksOf :: "string \<Rightarrow> string \<Rightarrow> server \<Rightarrow> (nat \<times> nat) set" where
  "marksOf sid rid st =
     (case map_of (gameRooms st) rid of
        None \<Rightarrow> {}
      | Some rm \<Rightarrow> (case findPlayer sid rm of None \<Rightarrow> {} | Some p \<Rightarrow> set (marks p)))"

lemma cell_eq: "(fst m = row \<and> snd m = col) \<longleftrightarrow> m = (row, col)"
  by (cases m) simp

lemma list_ex_cell: "list_ex (\<lambda>m. fst m = row \<and> snd m = col) xs \<longleftrightarrow> (row, col) \<in> set xs"
  unfolding cell_eq list_ex_iff by blast

lemma filter_cell: "set (filter (\<lambda>m. \<not> (fst m = row \<and> snd m = col)) xs) = set xs - {(row, col)}"
  unfolding cell_eq set_filter by blast

definition unmark :: "nat \<Rightarrow> nat \<Rightarrow> player \<Rightarrow> player" where
  "unmark row col p = p\<lparr>marks := filter (\<lambda>m. \<not> (fst m = row \<and> snd m = col)) (marks p)\<rparr>"

definition mark :: "nat \<Rightarrow> nat \<Rightarrow> player \<Rightarrow> player" where
  "mark row col p = p\<lparr>marks := marks p @ [(row, col)]\<rparr>"

lemma markCell_marked:
  assumes rm: "map_of (gameRooms st) rid = Some rm"
    and started: "gameStarted rm"
    and p: "findPlayer sid rm = Some p"
    and noqueen: "(row, col) \<notin> set (queens p)"
    and marked: "(row, col) \<in> set (marks p)"
  shows "markCell sid rid row col st =
           (putRoom rid (rm\<lparr>players := updatePlayer sid (unmark row col) (players rm)\<rparr>) st,
            [ToRoom rid (CellUnmarked sid row col)])"
  using assms unfolding markCell_def unmark_def by (simp add: list_ex_cell)

lemma markCell_unmarked:
  assumes rm: "map_of (gameRooms st) rid = Some rm"
    and started: "gameStarted rm"
    and p: "findPlayer sid rm = Some p"
    and noqueen: "(row, col) \<notin> set (queens p)"
    and unmarked: "(row, col) \<notin> set (marks p)"
  shows "markCell sid rid row col st =
           (putRoom rid (rm\<lparr>players := updatePlayer sid (mark row col) (players rm)\<rparr>) st,
            [ToRoom rid (CellMarked sid row col)])"
  using assms unfolding markCell_def mark_def by (simp add: list_ex_cell)

lemma markCell_once:
  assumes rm: "map_of (gameRooms st) rid = Some rm"
    and started: "gameStarted rm"
    and p: "findPlayer sid rm = Some p"
    and noqueen: "(row, col) \<notin> set (queens p)"
  shows "\<exists>rm' p'. map_of (gameRooms (fst (markCell sid rid row col st))) rid = Some rm'
      \<and> gameStarted rm' \<and> findPlayer sid rm' = Some p' \<and> queens p' = queens p
      \<and> set (marks p') = (if (row, col) \<in> set (marks p) then set (marks p) - {(row, col)}
                           else insert (row, col) (set (marks p)))
      \<and> snd (markCell sid rid row col st) =
          [ToRoom rid ((if (row, col) \<in> set (marks p) then CellUnmarked else CellMarked) sid row col)]"
proof -
  have pid: "playerId p = sid" using p by (rule findPlayer_id)
  show ?thesis
  proof (cases "(row, col) \<in> set (marks p)")
    case True
    let ?rm' = "rm\<lparr>players := updatePlayer sid (unmark row col) (players rm)\<rparr>"
    have pid': "playerId (unmark row col p) = sid" using pid by (simp add: unmark_def)
    have f: "findPlayer sid ?rm' = Some (unmark row col p)"
      using p pid' by (rule findPlayer_update)
    have eq: "markCell sid rid row col st =
                (putRoom rid ?rm' st, [ToRoom rid (CellUnmarked sid row col)])"
      using rm started p noqueen True by (rule markCell_marked)
    have a: "map_of (gameRooms (fst (markCell sid rid row col st))) rid = Some ?rm'"
      unfolding eq by (simp add: map_of_putRoom)
    have b: "gameStarted ?rm'" using started by simp
    have c: "queens (unmark row col p) = queens p" by (simp add: unmark_def)
    have "marks (unmark row col p) = filter (\<lambda>m. \<not> (fst m = row \<and> snd m = col)) (marks p)"
      by (simp add: unmark_def)
    then have d: "set (marks (unmark row col p)) = set (marks p) - {(row, col)}"
      by (simp only: filter_cell)
    have e: "snd (markCell sid rid row col st) = [ToRoom rid (CellUnmarked sid row col)]"
      unfolding eq by simp
    show ?thesis
      apply (rule exI [of _ ?rm'])
      apply (rule exI [of _ "unmark row col p"])
      using a b c d e f True apply simp
      done
  next
    case False
    let ?rm' = "rm\<lparr>players := updatePlayer sid (mark row col) (players rm)\<rparr>"
    have pid': "playerId (mark row col p) = sid" using pid by (simp add: mark_def)
    have f: "findPlayer sid ?rm' = Some (mark row col p)"
      using p pid' by (rule findPlayer_update)
    have eq: "markCell sid rid row col st =
                (putRoom rid ?rm' st, [ToRoom rid (CellMarked sid row col)])"
      using rm started p noqueen False by (rule markCell_unmarked)
    have a: "map_of (gameRooms (fst (markCell sid rid row col st))) rid = Some ?rm'"
      unfolding eq by (simp add: map_of_putRoom)
    have b: "gameStarted ?rm'" using started by simp
    have c: "queens (mark row col p) = queens p" by (simp add: mark_def)
    have d: "set (marks (mark row col p)) = insert (row, col) (set (marks p))"
      by (simp add: mark_def)
    have e: "snd (markCell sid rid row col st) = [ToRoom rid (CellMarked sid row col)]"
      unfolding eq by simp
    show ?thesis
      apply (rule exI [of _ ?rm'])
      apply (rule exI [of _ "mark row col p"])
      using a b c d e f False apply simp
      done
  qed
qed

definition alice :: player where
  "alice = \<lparr>playerId = ''alice'', playerName = ''Alice'', ready = True,
             queens = take 7 solvableSolution, marks = [(0, 1)]\<rparr>"

definition bob :: player where
  "bob = \<lparr>playerId = ''bob'', playerName = ''Bob'', ready = True,
           queens = take 6 solvableSolution, marks = [(3, 3)]\<rparr>"

definition playRoom :: room where
  "playRoom = \<lparr>roomId = ''ROOM01'', players = [alice, bob], gameStarted = True,
                board = Some solvableBoard\<rparr>"

definition playState :: server where
  "playState = \<lparr>gameRooms = [(''ROOM01'', playRoom)], timers = []\<rparr>"

definition wonRoom :: room where
  "wonRoom = \<lparr>roomId = ''ROOM01'',
               players = [newPlayer ''alice'' ''Alice'', newPlayer ''bob'' ''Bob''],
               gameStarted = False, board = Some solvableBoard\<rparr>"

lemma timers_putRoom: "timers (putRoom rid rm st) = timers st"
  by (simp add: putRoom_def)

lemma timers_createGame: "timers (fst (createGame sid rid name st)) = timers st"
  by (simp add: createGame_def timers_putRoom)

lemma getRoom_own: "map_of (gameRooms st) rid = Some rm \<Longrightarrow> getRoom st rid = OwnRoom rm"
  by (simp add: getRoom_def)

lemma timers_joinGame:
  "joinGame sid rid name st = Inr (st', evs) \<Longrightarrow> timers st' = timers st"
  unfolding joinGame_def Let_def
  by (auto simp: timers_putRoom split: lookup.splits if_splits)

lemma timers_restartGame:
  "restartGame sid rid st = Inr (st', evs) \<Longrightarrow> timers st' = timers st"
  unfolding restartGame_def by (auto simp: timers_putRoom split: lookup.splits)

lemma timers_newPuzzle:
  "newPuzzle sid rid st = Inr (st', evs) \<Longrightarrow> timers st' = timers st"
  unfolding newPuzzle_def by (auto simp: timers_putRoom split: lookup.splits)

lemma timers_markCell: "timers (fst (markCell sid rid row col st)) = timers st"
  by (simp add: markCell_def timers_putRoom split: option.splits)

lemma timers_placeQueen:
  "placeQueen sid rid row col st = Inr (st', evs) \<Longrightarrow> timers st' = timers st"
  unfolding placeQueen_def Let_def
  by (auto simp: timers_putRoom split: option.splits sum.splits validation.splits if_splits)

lemma timers_disconnectRoom: "timers (fst (disconnectRoom sid rid acc)) = timers (fst acc)"
  by (cases acc) (simp add: disconnectRoom_def timers_putRoom Let_def split: option.splits)

lemma timers_disconnect_loop:
  "timers (fst (foldl (\<lambda>acc rid. disconnectRoom sid rid acc) acc rids)) = timers (fst acc)"
  by (induction rids arbitrary: acc) (simp_all add: timers_disconnectRoom)

lemma timers_disconnect: "timers (fst (disconnect sid st)) = timers st"
  by (simp add: disconnect_def timers_disconnect_loop)

lemma timers_playerReady:
  "playerReady sid rid rdy t st = Some (Inr (st', evs, t')) \<Longrightarrow>
     timers st' = timers st
     \<or> (\<exists>b. timers st' = timers st @ [(rid, b)] \<and> generatePuzzleBoard t = Some (b, t')
           \<and> evs = [ToRoom rid (PlayerReadyChanged sid rdy), ToRoom rid GameCountdown])"
  unfolding playerReady_def Let_def
  by (auto simp: timers_putRoom split: lookup.splits option.splits if_splits)

definition lobbyState :: server where
  "lobbyState =
     \<lparr>gameRooms = [(''ROOM01'',
        \<lparr>roomId = ''ROOM01'',
         players = [(newPlayer ''alice'' ''Alice'')\<lparr>ready := True\<rparr>, newPlayer ''bob'' ''Bob''],
         gameStarted = False, board = None\<rparr>)],
      timers = []\<rparr>"

definition countdownState :: server where
  "countdownState =
     \<lparr>gameRooms = [(''ROOM01'',
        \<lparr>roomId = ''ROOM01'',
         players = [(newPlayer ''alice'' ''Alice'')\<lparr>ready := True\<rparr>,
                    (newPlayer ''bob'' ''Bob'')\<lparr>ready := True\<rparr>],
         gameStarted = True, board = Some solvableBoard\<rparr>)],
      timers = [(''ROOM01'', solvableBoard)]\<rparr>"

definition restartedState :: server where
  "restartedState =
     \<lparr>gameRooms = [(''ROOM01'',
        \<lparr>roomId = ''ROOM01'', players = [newPlayer ''alice'' ''Alice'', newPlayer ''bob'' ''Bob''],
         gameStarted = False, board = None\<rparr>)],
      timers = [(''ROOM01'', solvableBoard)]\<rparr>"

text \<open>
  The order of \<open>Object.keys\<close> on ids of both kinds, and calls with an inherited key or
  a row outside the grid.
\<close>

lemma objectKeys_order:
  "objectKeys [(''ROOM01'', playRoom), (''200000'', playRoom), (''100000'', playRoom),
               (''012345'', playRoom), (''99'', playRoom)]
     = [''99'', ''100000'', ''200000'', ''ROOM01'', ''012345'']"
  by code_simp

lemma throwing_calls:
  "restartGame ''alice'' ''__proto__'' playState = Inl TypeError
   \<and> newPuzzle ''alice'' ''toString'' playState = Inl TypeError
   \<and> joinGame ''carol'' ''constructor'' ''Carol'' playState = Inl TypeError
   \<and> playerReady ''alice'' ''valueOf'' True [] playState = Some (Inl TypeError)
   \<and> placeQueen ''alice'' ''ROOM01'' 8 0 playState = Inl TypeError
   \<and> placeQueen ''alice'' ''__proto__'' 0 0 playState
       = Inr (playState, [ToSocket ''alice'' (Error ''Game not started'')])
   \<and> joinGame ''carol'' ''NOROOM'' ''Carol'' playState
       = Inr (playState, [ToSocket ''carol'' (Error ''Game room not found'')])"
  by code_simp

lemma countdown_reached:
  "playerReady ''bob'' ''ROOM01'' True solvableTape lobbyState =
     Some (Inr (countdownState,
                [ToRoom ''ROOM01'' (PlayerReadyChanged ''bob'' True), ToRoom ''ROOM01'' GameCountdown],
                []))"
  by (simp add: playerReady_def getRoom_def lobbyState_def countdownState_def findPlayer_def
      newPlayer_def solvable_board putRoom_def)

section \<open>Lemmas on the generator\<close>

text \<open>
  A run that returns on a tape returns the same on every longer tape and leaves the
  extra draws unread: the result depends on the draws consumed only.
\<close>

lemma pickStart_append:
  "pickStart g t = Some (p, t') \<Longrightarrow> pickStart g (t @ u) = Some (p, t' @ u)"
proof (induction g t rule: pickStart.induct)
  case (1 g x y rest)
  show ?case
  proof (cases "g ! (x mod BOARD_SIZE) ! (y mod BOARD_SIZE) \<noteq> Null")
    case True
    with "1.prems" have "pickStart g rest = Some (p, t')" by simp
    with "1.IH" [OF refl refl True] True show ?thesis by simp
  next
    case False
    with "1.prems" show ?thesis by auto
  qed
qed simp_all

lemma growLoop_append:
  "growLoop regionId targetSize s t = Some (res, t')
     \<Longrightarrow> growLoop regionId targetSize s (t @ u) = Some (res, t' @ u)"
proof (induction regionId targetSize s t rule: growLoop.induct)
  case (1 regionId targetSize g cellsInRegion queue t)
  show ?case
  proof (cases "queue \<noteq> [] \<and> cellsInRegion < targetSize")
    case False
    with "1.prems" show ?thesis by (auto simp: growLoop.simps)
  next
    case True
    show ?thesis
    proof (cases t)
      case Nil
      with True "1.prems" show ?thesis by (simp add: growLoop.simps)
    next
      case (Cons x rest)
      obtain row col where rc: "queue ! (x mod length queue) = (row, col)"
        by (cases "queue ! (x mod length queue)")
      let ?s = "visitNeighbours regionId targetSize row col directions
                (g, cellsInRegion,
                 take (x mod length queue) queue @ drop (Suc (x mod length queue)) queue)"
      from True Cons rc "1.prems"
      have "growLoop regionId targetSize ?s rest = Some (res, t')"
        by (simp add: growLoop.simps [of _ _ g] Let_def)
      with "1.IH" [OF True Cons refl rc [symmetric] refl]
      have "growLoop regionId targetSize ?s (rest @ u) = Some (res, t' @ u)"
        by simp
      with True Cons rc show ?thesis
        by (simp add: growLoop.simps [of _ _ g] Let_def)
    qed
  qed
qed

lemma growRegion_append:
  "growRegion g startRow startCol regionId t = Some (res, t')
     \<Longrightarrow> growRegion g startRow startCol regionId (t @ u) = Some (res, t' @ u)"
  by (cases t) (auto dest: growLoop_append)

lemma regionIter_append:
  assumes "regionIter regionId g used t = Some (regionId', g', used', t')"
  shows "regionIter regionId g used (t @ u) = Some (regionId', g', used', t' @ u)"
proof -
  from assms obtain startRow startCol t1 where
    ps: "pickStart g t = Some ((startRow, startCol), t1)"
    unfolding regionIter_def by (auto split: option.splits)
  with assms obtain g1 cells t2 where
    gr: "growRegion g startRow startCol regionId t1 = Some ((g1, cells), t2)"
    unfolding regionIter_def by (auto split: option.splits)
  from ps gr assms have eq: "t' = t2" unfolding regionIter_def
    by (auto simp: Let_def split: if_splits)
  from ps gr assms pickStart_append [OF ps, of u] growRegion_append [OF gr, of u]
  show ?thesis unfolding regionIter_def by (auto simp: Let_def split: if_splits)
qed

lemma regionIters_append:
  "regionIters n regionId g used t = Some (regionId', g', used', t')
     \<Longrightarrow> regionIters n regionId g used (t @ u) = Some (regionId', g', used', t' @ u)"
proof (induction n arbitrary: regionId g used t)
  case 0
  then show ?case by simp
next
  case (Suc n)
  show ?case
  proof (cases "regionId < NUM_REGIONS")
    case False
    with Suc.prems show ?thesis by simp
  next
    case True
    with Suc.prems obtain r1 g1 u1 t1 where
      it: "regionIter regionId g used t = Some (r1, g1, u1, t1)"
      and rest: "regionIters n r1 g1 u1 t1 = Some (regionId', g', used', t')"
      by (auto split: option.splits)
    from regionIter_append [OF it, of u] Suc.IH [OF rest] True show ?thesis by simp
  qed
qed

lemma regionLoop_iters:
  "regionIters n regionId g used t = Some (regionId', g', used', t')
     \<Longrightarrow> regionLoop regionId g used t = regionLoop regionId' g' used' t'"
proof (induction n arbitrary: regionId g used t)
  case 0
  then show ?case by simp
next
  case (Suc n)
  show ?case
  proof (cases "regionId < NUM_REGIONS")
    case False
    with Suc.prems show ?thesis by simp
  next
    case True
    with Suc.prems obtain r1 g1 u1 t1 where
      it: "regionIter regionId g used t = Some (r1, g1, u1, t1)"
      and rest: "regionIters n r1 g1 u1 t1 = Some (regionId', g', used', t')"
      by (auto split: option.splits)
    from True it have "regionLoop regionId g used t = regionLoop r1 g1 u1 t1"
      by (simp add: regionLoop.simps [of regionId])
    with Suc.IH [OF rest] show ?thesis by simp
  qed
qed

lemma regionLoop_append:
  "regionLoop regionId g used t = Some (g', used', t')
     \<Longrightarrow> regionLoop regionId g used (t @ u) = Some (g', used', t' @ u)"
proof (induction regionId g used t rule: regionLoop.induct)
  case (1 regionId g used t)
  show ?case
  proof (cases "regionId < NUM_REGIONS")
    case False
    with "1.prems" show ?thesis by (simp add: regionLoop.simps)
  next
    case True
    with "1.prems" obtain r1 g1 u1 t1 where
      it: "regionIter regionId g used t = Some (r1, g1, u1, t1)"
      and rest: "regionLoop r1 g1 u1 t1 = Some (g', used', t')"
      by (auto simp: regionLoop.simps [of regionId] split: option.splits)
    from "1.IH" [OF True it refl refl refl rest] regionIter_append [OF it, of u] True
    show ?thesis by (simp add: regionLoop.simps [of regionId])
  qed
qed

lemma generateRegions_append:
  "generateRegions t = Some (g, t') \<Longrightarrow> generateRegions (t @ u) = Some (g, t' @ u)"
proof (induction t rule: generateRegions.induct)
  case (1 t)
  from "1.prems" obtain g1 u1 t1 where
    lp: "regionLoop 0 emptyRegions {} t = Some (g1, u1, t1)"
    by (auto simp: generateRegions.simps [of t] split: option.splits)
  note lp' = regionLoop_append [OF lp, of u]
  show ?case
  proof (cases "\<not> allCellsFilled g1 \<or> int (card u1) \<noteq> NUM_REGIONS")
    case True
    with lp "1.prems" have "generateRegions t1 = Some (g, t')"
      by (auto simp: generateRegions.simps [of t])
    with "1.IH" [OF lp refl refl True] have "generateRegions (t1 @ u) = Some (g, t' @ u)" by simp
    with lp' True show ?thesis by (auto simp: generateRegions.simps [of "t @ u"])
  next
    case False
    with lp "1.prems" have "g = g1" "t' = t1"
      by (auto simp: generateRegions.simps [of t])
    with lp' False show ?thesis by (auto simp: generateRegions.simps [of "t @ u"])
  qed
qed

text \<open>
  Every grid in a run is 8 by 8, and \<open>generateRegions\<close> returns only after its scan
  found no \<open>null\<close> cell. On a grid without a \<open>null\<close> cell the search for a start cell
  reads draws for ever.
\<close>

lemma wf_grid_iff: "wf_grid g \<longleftrightarrow> length g = 8 \<and> (\<forall>r \<in> set g. length r = 8)"
  by (simp add: wf_grid_def BOARD_SIZE_def list_all_iff)

lemma wf_emptyRegions: "wf_grid emptyRegions"
  by (simp add: wf_grid_iff emptyRegions_def BOARD_SIZE_def)

lemma wf_setCell: "wf_grid g \<Longrightarrow> wf_grid (setCell g row col v)"
proof (cases "row < length g")
  case True
  assume "wf_grid g"
  with True have "length (g ! row) = 8" by (simp add: wf_grid_iff)
  with \<open>wf_grid g\<close> show ?thesis
    unfolding wf_grid_iff setCell_def
    by (auto dest!: subsetD [OF set_update_subset_insert])
next
  case False
  assume "wf_grid g"
  with False show ?thesis by (simp add: setCell_def list_update_beyond)
qed

lemma wf_resetCells: "wf_grid g \<Longrightarrow> wf_grid (resetCells g regionId)"
  unfolding wf_grid_iff resetCells_def by auto

lemma wf_visitNeighbours:
  "wf_grid (fst s) \<Longrightarrow> wf_grid (fst (visitNeighbours regionId targetSize row col ds s))"
proof (induction regionId targetSize row col ds s rule: visitNeighbours.induct)
  case (1 regionId targetSize row col s)
  then show ?case by simp
next
  case (2 regionId targetSize row col dr dc ds g cellsInRegion queue)
  then show ?case by (simp add: Let_def wf_setCell)
qed

lemma wf_growLoop:
  "growLoop regionId targetSize s t = Some ((g', n), t') \<Longrightarrow> wf_grid (fst s) \<Longrightarrow> wf_grid g'"
proof (induction regionId targetSize s t rule: growLoop.induct)
  case (1 regionId targetSize g cellsInRegion queue t)
  show ?case
  proof (cases "queue \<noteq> [] \<and> cellsInRegion < targetSize")
    case False
    with "1.prems" show ?thesis by (auto simp: growLoop.simps)
  next
    case True
    show ?thesis
    proof (cases t)
      case Nil
      with True "1.prems" show ?thesis by (simp add: growLoop.simps)
    next
      case (Cons x rest)
      obtain row col where rc: "queue ! (x mod length queue) = (row, col)"
        by (cases "queue ! (x mod length queue)")
      let ?s = "visitNeighbours regionId targetSize row col directions
                (g, cellsInRegion,
                 take (x mod length queue) queue @ drop (Suc (x mod length queue)) queue)"
      from True Cons rc "1.prems"
      have "growLoop regionId targetSize ?s rest = Some ((g', n), t')"
        by (simp add: growLoop.simps [of _ _ g] Let_def)
      moreover have "wf_grid (fst ?s)" using "1.prems"(2) by (intro wf_visitNeighbours) simp
      ultimately show ?thesis
        using "1.IH" [OF True Cons refl rc [symmetric] refl] by simp
    qed
  qed
qed

lemma wf_growRegion:
  "growRegion g startRow startCol regionId t = Some ((g', n), t') \<Longrightarrow> wf_grid g \<Longrightarrow> wf_grid g'"
  by (cases t) (auto dest!: wf_growLoop simp: wf_setCell)

lemma wf_regionIter:
  "regionIter regionId g used t = Some (regionId', g', used', t') \<Longrightarrow> wf_grid g \<Longrightarrow> wf_grid g'"
proof -
  assume it: "regionIter regionId g used t = Some (regionId', g', used', t')" and wf: "wf_grid g"
  from it obtain startRow startCol t1 g1 cells t2 where
    gr: "growRegion g startRow startCol regionId t1 = Some ((g1, cells), t2)"
    and g': "g' = (if cells < 3 then resetCells g1 (regionId - 1) else g1)"
    unfolding regionIter_def by (auto simp: Let_def split: option.splits if_splits)
  from wf_growRegion [OF gr wf] g' show ?thesis by (simp add: wf_resetCells)
qed

lemma wf_regionLoop:
  "regionLoop regionId g used t = Some (g', used', t') \<Longrightarrow> wf_grid g \<Longrightarrow> wf_grid g'"
proof (induction regionId g used t rule: regionLoop.induct)
  case (1 regionId g used t)
  show ?case
  proof (cases "regionId < NUM_REGIONS")
    case False
    with "1.prems" show ?thesis by (simp add: regionLoop.simps)
  next
    case True
    with "1.prems" obtain r1 g1 u1 t1 where
      it: "regionIter regionId g used t = Some (r1, g1, u1, t1)"
      and rest: "regionLoop r1 g1 u1 t1 = Some (g', used', t')"
      by (auto simp: regionLoop.simps [of regionId] split: option.splits)
    from wf_regionIter [OF it "1.prems"(2)] "1.IH" [OF True it refl refl refl rest]
    show ?thesis by simp
  qed
qed

lemma generateRegions_result:
  "generateRegions t = Some (g, t') \<Longrightarrow> wf_grid g \<and> allCellsFilled g"
proof (induction t rule: generateRegions.induct)
  case (1 t)
  from "1.prems" obtain g1 u1 t1 where
    lp: "regionLoop 0 emptyRegions {} t = Some (g1, u1, t1)"
    by (auto simp: generateRegions.simps [of t] split: option.splits)
  show ?case
  proof (cases "\<not> allCellsFilled g1 \<or> int (card u1) \<noteq> NUM_REGIONS")
    case True
    with lp "1.prems" have "generateRegions t1 = Some (g, t')"
      by (auto simp: generateRegions.simps [of t])
    with "1.IH" [OF lp refl refl True] show ?thesis by simp
  next
    case False
    with lp "1.prems" have "g = g1"
      by (auto simp: generateRegions.simps [of t])
    with False wf_regionLoop [OF lp wf_emptyRegions] show ?thesis by simp
  qed
qed

lemma allCellsFilled_cell:
  "allCellsFilled g \<Longrightarrow> row < 8 \<Longrightarrow> col < 8 \<Longrightarrow> g ! row ! col \<noteq> Null"
  by (simp add: allCellsFilled_def BOARD_SIZE_def list_all_iff)

lemma pickStart_full: "allCellsFilled g \<Longrightarrow> pickStart g t = None"
proof (induction g t rule: pickStart.induct)
  case (1 g x y rest)
  have "g ! (x mod BOARD_SIZE) ! (y mod BOARD_SIZE) \<noteq> Null"
    using "1.prems" by (intro allCellsFilled_cell) (simp_all add: BOARD_SIZE_def)
  with "1.IH" [OF refl refl this "1.prems"] show ?case by simp
qed simp_all

text \<open>
  Six blocks fill the grid: four of 3 by 4 and two of 2 by 4. Region 6 has no cell to
  start from.
\<close>

definition fullTape :: tape where
  "fullTape =
     block3x4 0 0 @ block3x4 0 4 @ block3x4 3 0 @ block3x4 3 4 @ block2x4 6 0 @ block2x4 6 4"

definition fullGrid :: grid where
  "fullGrid =
     [cells4 0 1, cells4 0 1, cells4 0 1, cells4 2 3, cells4 2 3, cells4 2 3,
      cells4 4 5, cells4 4 5]"

lemma full_run:
  "regionIters 6 0 emptyRegions {} fullTape = Some (6, fullGrid, {0, 1, 2, 3, 4, 5}, [])"
  by code_simp

lemma full_filled: "allCellsFilled fullGrid"
  by code_simp

text \<open>
  On a grid without a \<open>null\<close> cell the loop over the region ids never gets past an id
  below \<open>NUM_REGIONS\<close>, whatever is drawn.
\<close>

lemma regionLoop_full_never_returns:
  "allCellsFilled g \<Longrightarrow> regionId < NUM_REGIONS \<Longrightarrow> regionLoop regionId g used t = None"
  by (simp add: regionLoop.simps [of regionId] regionIter_def pickStart_full)

lemma fullTape_never_returns: "generateRegions (fullTape @ t) = None"
proof -
  have "regionLoop 0 emptyRegions {} (fullTape @ t)
          = regionLoop 6 fullGrid {0, 1, 2, 3, 4, 5} t"
    using regionIters_append [OF full_run, of t] by (auto dest: regionLoop_iters)
  moreover have "regionIter 6 fullGrid {0, 1, 2, 3, 4, 5} t = None"
    by (simp add: regionIter_def pickStart_full [OF full_filled])
  ultimately have "regionLoop 0 emptyRegions {} (fullTape @ t) = None"
    by (simp add: regionLoop.simps [of 6] NUM_REGIONS_def)
  then show ?thesis by (simp add: generateRegions.simps [of "fullTape @ t"])
qed

section \<open>Lemmas on the solver\<close>

text \<open>
  What the search is to compute, in the words of its contract. A cell is safe for a
  list of placed queens when its column and its region are not taken and no placed
  queen is on a diagonal of it. \<open>firstPlacement k g row placed\<close> places \<open>k\<close> more queens,
  one per row from \<open>row\<close> on, trying the columns in ascending order and keeping the first
  that is safe and can be completed.
\<close>

definition cellAt :: "grid \<Rightarrow> nat \<times> nat \<Rightarrow> cell" where
  "cellAt g q = g ! fst q ! snd q"

definition onDiagonal :: "nat \<times> nat \<Rightarrow> nat \<times> nat \<Rightarrow> bool" where
  "onDiagonal q q' = (\<bar>int (fst q) - int (fst q')\<bar> = \<bar>int (snd q) - int (snd q')\<bar>)"

definition safeCell :: "grid \<Rightarrow> (nat \<times> nat) list \<Rightarrow> nat \<Rightarrow> nat \<Rightarrow> bool" where
  "safeCell g placed row col =
     (col \<notin> snd ` set placed \<and> g ! row ! col \<notin> cellAt g ` set placed
      \<and> \<not> list_ex (\<lambda>q. onDiagonal q (row, col)) placed)"

primrec firstPlacement :: "nat \<Rightarrow> grid \<Rightarrow> nat \<Rightarrow> (nat \<times> nat) list \<Rightarrow> (nat \<times> nat) list option" where
  "firstPlacement 0 g row placed = Some placed"
| "firstPlacement (Suc k) g row placed =
     (case find (\<lambda>col. safeCell g placed row col
                        \<and> firstPlacement k g (row + 1) (placed @ [(row, col)]) \<noteq> None)
                [0..<BOARD_SIZE] of
        None \<Rightarrow> None
      | Some col \<Rightarrow> firstPlacement k g (row + 1) (placed @ [(row, col)]))"

text \<open>
  A placement for the rows below \<open>n\<close>: one cell per row in row order, columns in the
  grid and pairwise distinct, regions pairwise distinct, no two cells on a common
  diagonal. A solution is a placement for all 8 rows.
\<close>

definition placementUpTo :: "grid \<Rightarrow> nat \<Rightarrow> (nat \<times> nat) list \<Rightarrow> bool" where
  "placementUpTo g n s =
     (map fst s = [0..<n] \<and> (\<forall>q \<in> set s. snd q < 8) \<and> distinct (map snd s)
      \<and> distinct (map (cellAt g) s)
      \<and> (\<forall>q \<in> set s. \<forall>q' \<in> set s. q \<noteq> q' \<longrightarrow> \<not> onDiagonal q q'))"

definition validPlacement :: "grid \<Rightarrow> (nat \<times> nat) list \<Rightarrow> bool" where
  "validPlacement g s = placementUpTo g BOARD_SIZE s"

text \<open>The variables of the search when the queens \<open>placed\<close> are on the board.\<close>

definition solverOf :: "grid \<Rightarrow> (nat \<times> nat) list \<Rightarrow> solver" where
  "solverOf g placed =
     \<lparr>usedRegions = cellAt g ` set placed, usedRows = fst ` set placed,
      usedCols = snd ` set placed, sol = placed\<rparr>"

lemma isUnderAttack_iff:
  "isUnderAttack row col placed \<longleftrightarrow> list_ex (\<lambda>q. onDiagonal q (row, col)) placed"
  by (simp add: isUnderAttack_def onDiagonal_def)

lemma place_solverOf:
  "place row col (g ! row ! col) (solverOf g placed) = solverOf g (placed @ [(row, col)])"
  by (simp add: place_def solverOf_def cellAt_def)

lemma backtrack_solverOf:
  assumes "row \<notin> fst ` set placed" and "col \<notin> snd ` set placed"
    and "g ! row ! col \<notin> cellAt g ` set placed"
  shows "backtrack row col (g ! row ! col) (solverOf g (placed @ [(row, col)])) = solverOf g placed"
  using assms by (simp add: backtrack_def solverOf_def cellAt_def)

lemma solverOf_fields:
  "usedRows (solverOf g placed) = fst ` set placed"
  "usedCols (solverOf g placed) = snd ` set placed"
  "usedRegions (solverOf g placed) = cellAt g ` set placed"
  "sol (solverOf g placed) = placed"
  by (simp_all add: solverOf_def)

lemma safeCell_iff:
  "safeCell g placed row col \<longleftrightarrow>
     \<not> (col \<in> usedCols (solverOf g placed) \<or> g ! row ! col \<in> usedRegions (solverOf g placed))
     \<and> \<not> isUnderAttack row col (sol (solverOf g placed))"
  by (simp add: safeCell_def solverOf_fields isUnderAttack_iff)

lemma upt_8_Cons: "col < 8 \<Longrightarrow> [col..<8] = col # [col + 1..<8]"
  by (simp add: upt_conv_Cons)

lemma placeQueens_refines:
  "\<forall>placed. st = solverOf g placed \<longrightarrow> (\<forall>q \<in> set placed. fst q < row) \<longrightarrow> row \<le> 8 \<longrightarrow>
     placeQueens g row st =
       (case firstPlacement (8 - row) g row placed of
          None \<Rightarrow> (False, st)
        | Some s \<Rightarrow> (True, solverOf g s))"
  and tryCols_refines:
  "\<forall>placed. st = solverOf g placed \<longrightarrow> (\<forall>q \<in> set placed. fst q < row) \<longrightarrow> row < 8 \<longrightarrow>
     col \<le> 8 \<longrightarrow>
     tryCols g row col st =
       (case find (\<lambda>c. safeCell g placed row c
                        \<and> firstPlacement (7 - row) g (row + 1) (placed @ [(row, c)]) \<noteq> None)
                  [col..<8] of
          None \<Rightarrow> (False, st)
        | Some c \<Rightarrow>
            (case firstPlacement (7 - row) g (row + 1) (placed @ [(row, c)]) of
               None \<Rightarrow> (False, st)
             | Some s \<Rightarrow> (True, solverOf g s)))"
proof (induction g row st and g row col st rule: placeQueens_tryCols.induct)
  case (1 g row st)
  show ?case
  proof (intro allI impI)
    fix placed
    assume st: "st = solverOf g placed" and rows: "\<forall>q \<in> set placed. fst q < row"
      and le: "row \<le> 8"
    show "placeQueens g row st =
       (case firstPlacement (8 - row) g row placed of
          None \<Rightarrow> (False, st)
        | Some s \<Rightarrow> (True, solverOf g s))"
    proof (cases "row < 8")
      case False
      with le have "row = 8" by simp
      then show ?thesis by (simp add: placeQueens.simps [of g 8] BOARD_SIZE_def st)
    next
      case True
      have notin: "row \<notin> usedRows st" using rows by (auto simp: st solverOf_fields)
      have k: "8 - row = Suc (7 - row)" using True by simp
      from "1.IH"(2) True notin st rows
      have t: "tryCols g row 0 st =
         (case find (\<lambda>c. safeCell g placed row c
                        \<and> firstPlacement (7 - row) g (row + 1) (placed @ [(row, c)]) \<noteq> None)
                  [0..<8] of
            None \<Rightarrow> (False, st)
          | Some c \<Rightarrow>
              (case firstPlacement (7 - row) g (row + 1) (placed @ [(row, c)]) of
                 None \<Rightarrow> (False, st)
               | Some s \<Rightarrow> (True, solverOf g s)))"
        by (simp add: BOARD_SIZE_def)
      have p: "placeQueens g row st = tryCols g row 0 st"
        using True notin by (simp add: placeQueens.simps [of g row] BOARD_SIZE_def)
      show ?thesis
        unfolding p t k firstPlacement.simps BOARD_SIZE_def
        by (auto split: option.splits dest: find_Some_holds)
    qed
  qed
next
  case (2 g row col st)
  show ?case
  proof (intro allI impI)
    fix placed
    assume st: "st = solverOf g placed" and rows: "\<forall>q \<in> set placed. fst q < row"
      and lt: "row < 8" and le: "col \<le> 8"
    let ?P = "\<lambda>c. safeCell g placed row c
                \<and> firstPlacement (7 - row) g (row + 1) (placed @ [(row, c)]) \<noteq> None"
    let ?rhs = "\<lambda>cols. case find ?P cols of
          None \<Rightarrow> (False, st)
        | Some c \<Rightarrow>
            (case firstPlacement (7 - row) g (row + 1) (placed @ [(row, c)]) of
               None \<Rightarrow> (False, st)
             | Some s \<Rightarrow> (True, solverOf g s))"
    show "tryCols g row col st = ?rhs [col..<8]"
    proof (cases "col < 8")
      case False
      with le have "col = 8" by simp
      then show ?thesis by (simp add: tryCols.simps [of g row 8] BOARD_SIZE_def)
    next
      case True
      note cons = upt_8_Cons [OF True]
      have cb: "col < BOARD_SIZE" using True by (simp add: BOARD_SIZE_def)
      have le': "col + 1 \<le> 8" using True by simp
      let ?x = "g ! row ! col"
      show ?thesis
      proof (cases "col \<in> usedCols st \<or> ?x \<in> usedRegions st")
        case a: True
        then have unsafe: "\<not> safeCell g placed row col"
          by (simp add: safeCell_iff st)
        from "2.IH"(1) [OF cb refl a] st rows lt le'
        have "tryCols g row (col + 1) st = ?rhs [col + 1..<8]" by simp
        moreover have "tryCols g row col st = tryCols g row (col + 1) st"
          using cb a by (simp add: tryCols.simps [of g row col])
        ultimately show ?thesis using unsafe by (simp add: cons)
      next
        case na: False
        show ?thesis
        proof (cases "isUnderAttack row col (sol st)")
          case b: True
          then have unsafe: "\<not> safeCell g placed row col"
            by (simp add: safeCell_iff st)
          from "2.IH"(2) [OF cb refl na b] st rows lt le'
          have "tryCols g row (col + 1) st = ?rhs [col + 1..<8]" by simp
          moreover have "tryCols g row col st = tryCols g row (col + 1) st"
            using cb na b by (simp add: tryCols.simps [of g row col])
          ultimately show ?thesis using unsafe by (simp add: cons)
        next
          case nb: False
          have safe: "safeCell g placed row col"
            using na nb by (simp add: safeCell_iff st)
          let ?placed' = "placed @ [(row, col)]"
          have st1: "place row col ?x st = solverOf g ?placed'"
            by (simp add: st place_solverOf)
          have rows': "\<forall>q \<in> set ?placed'. fst q < row + 1" using rows by auto
          from "2.IH"(3) [OF cb refl na nb] st1 rows' lt
          have inner: "placeQueens g (row + 1) (place row col ?x st) =
             (case firstPlacement (7 - row) g (row + 1) ?placed' of
                None \<Rightarrow> (False, place row col ?x st)
              | Some s \<Rightarrow> (True, solverOf g s))"
            by simp
          show ?thesis
          proof (cases "firstPlacement (7 - row) g (row + 1) ?placed'")
            case (Some s)
            with inner have "placeQueens g (row + 1) (place row col ?x st)
                               = (True, solverOf g s)" by simp
            then have "tryCols g row col st = (True, solverOf g s)"
              using cb na nb by (simp add: tryCols.simps [of g row col])
            then show ?thesis using safe Some by (simp add: cons)
          next
            case None
            with inner have r: "placeQueens g (row + 1) (place row col ?x st)
                               = (False, place row col ?x st)" by simp
            have undo: "backtrack row col ?x (place row col ?x st) = st"
            proof -
              have "backtrack row col ?x (solverOf g ?placed') = solverOf g placed"
                using rows na by (intro backtrack_solverOf) (auto simp: st solverOf_fields)
              then show ?thesis by (simp add: st place_solverOf)
            qed
            note ih = "2.IH"(4) [OF cb refl na nb refl r [symmetric], unfolded undo]
            from ih st rows lt le'
            have "tryCols g row (col + 1) st = ?rhs [col + 1..<8]" by simp
            moreover have "tryCols g row col st = tryCols g row (col + 1) st"
              using cb na nb r undo by (simp add: tryCols.simps [of g row col])
            ultimately show ?thesis using None by (simp add: cons)
          qed
        qed
      qed
    qed
  qed
qed

lemma onDiagonal_sym: "onDiagonal q q' \<longleftrightarrow> onDiagonal q' q"
  unfolding onDiagonal_def by linarith

lemma placementUpTo_length: "placementUpTo g n s \<Longrightarrow> length s = n"
  unfolding placementUpTo_def using length_map [of fst s] by (metis diff_zero length_upt)

lemma placementUpTo_rows: "placementUpTo g n s \<Longrightarrow> q \<in> set s \<Longrightarrow> fst q < n"
proof -
  assume v: "placementUpTo g n s" and q: "q \<in> set s"
  from q have "fst q \<in> set (map fst s)" by simp
  with v show ?thesis unfolding placementUpTo_def by simp
qed

lemma placementUpTo_snoc:
  "placementUpTo g (Suc n) (s @ [q]) \<longleftrightarrow>
     placementUpTo g n s \<and> fst q = n \<and> snd q < 8 \<and> safeCell g s n (snd q)"
proof
  assume v: "placementUpTo g (Suc n) (s @ [q])"
  then have rows: "map fst s = [0..<n]" and q: "fst q = n"
    unfolding placementUpTo_def by simp_all
  have qeq: "q = (n, snd q)" using q by (cases q) simp
  have notin: "q \<notin> set s"
  proof
    assume "q \<in> set s"
    then have "fst q \<in> set (map fst s)" by simp
    with rows q show False by simp
  qed
  have diag: "\<not> list_ex (\<lambda>a. onDiagonal a (n, snd q)) s"
  proof
    assume "list_ex (\<lambda>a. onDiagonal a (n, snd q)) s"
    then obtain a where a: "a \<in> set s" and d: "onDiagonal a q"
      using qeq by (auto simp: list_ex_iff)
    from a notin have "a \<noteq> q" by blast
    with v a d show False unfolding placementUpTo_def by simp
  qed
  have "cellAt g q = g ! n ! snd q" using q by (simp add: cellAt_def)
  with v diag have "safeCell g s n (snd q)"
    unfolding placementUpTo_def safeCell_def by auto
  moreover from v rows have "placementUpTo g n s" unfolding placementUpTo_def by simp
  moreover from v have "snd q < 8" unfolding placementUpTo_def by simp
  ultimately show "placementUpTo g n s \<and> fst q = n \<and> snd q < 8 \<and> safeCell g s n (snd q)"
    using q by simp
next
  assume r: "placementUpTo g n s \<and> fst q = n \<and> snd q < 8 \<and> safeCell g s n (snd q)"
  then have v: "placementUpTo g n s" and q: "fst q = n" and c: "snd q < 8"
    and safe: "safeCell g s n (snd q)" by simp_all
  have qeq: "q = (n, snd q)" using q by (cases q) simp
  have ce: "cellAt g q = g ! n ! snd q" using q by (simp add: cellAt_def)
  have d1: "\<forall>a \<in> set s. \<not> onDiagonal a q"
    using safe qeq unfolding safeCell_def by (auto simp: list_ex_iff)
  then have d2: "\<forall>a \<in> set s. \<not> onDiagonal q a"
    using onDiagonal_sym by blast
  have "map fst (s @ [q]) = [0..<Suc n]" using v q unfolding placementUpTo_def by simp
  moreover have "\<forall>a \<in> set (s @ [q]). snd a < 8" using v c unfolding placementUpTo_def by simp
  moreover have "distinct (map snd (s @ [q]))"
    using v safe unfolding placementUpTo_def safeCell_def by simp
  moreover have "distinct (map (cellAt g) (s @ [q]))"
    using v safe ce unfolding placementUpTo_def safeCell_def by simp
  moreover have "\<forall>a \<in> set (s @ [q]). \<forall>b \<in> set (s @ [q]). a \<noteq> b \<longrightarrow> \<not> onDiagonal a b"
    using v d1 d2 unfolding placementUpTo_def by auto
  ultimately show "placementUpTo g (Suc n) (s @ [q])"
    unfolding placementUpTo_def by blast
qed

lemma placementUpTo_prefix:
  assumes "placementUpTo g m (xs @ ys)"
  shows "placementUpTo g (length xs) xs"
proof -
  from assms have "map fst xs @ map fst ys = [0..<m]" unfolding placementUpTo_def by simp
  then have "take (length xs) (map fst xs @ map fst ys) = take (length xs) [0..<m]" by simp
  moreover have "length xs \<le> m" using placementUpTo_length [OF assms] by simp
  ultimately have "map fst xs = [0..<length xs]" by (simp add: take_upt)
  with assms show ?thesis unfolding placementUpTo_def by auto
qed

lemma find_upt_least:
  "find P [0..<n] = Some c \<Longrightarrow> c < n \<and> P c \<and> (\<forall>c' < c. \<not> P c')"
  by (auto simp: find_Some_iff)

lemma find_upt_None: "find P [0..<n] = None \<longleftrightarrow> (\<forall>c < n. \<not> P c)"
  by (auto simp: find_None_iff)

lemma firstPlacement_sound:
  "placementUpTo g row placed \<Longrightarrow> firstPlacement k g row placed = Some s
     \<Longrightarrow> (\<exists>ext. s = placed @ ext) \<and> placementUpTo g (row + k) s"
proof (induction k arbitrary: row placed)
  case 0
  then show ?case by simp
next
  case (Suc k)
  from Suc.prems(2) obtain c where
    f: "find (\<lambda>col. safeCell g placed row col
                      \<and> firstPlacement k g (row + 1) (placed @ [(row, col)]) \<noteq> None)
              [0..<BOARD_SIZE] = Some c"
    and r: "firstPlacement k g (row + 1) (placed @ [(row, c)]) = Some s"
    by (auto split: option.splits)
  from find_upt_least [OF f] have c: "c < 8" and safe: "safeCell g placed row c"
    by (simp_all add: BOARD_SIZE_def)
  have "placementUpTo g (Suc row) (placed @ [(row, c)])"
    using Suc.prems(1) c safe by (simp add: placementUpTo_snoc)
  from Suc.IH [of "row + 1" "placed @ [(row, c)]"] this r
  show ?case by auto
qed

lemma firstPlacement_complete:
  "placementUpTo g (row + k) (placed @ ext) \<Longrightarrow> length placed = row
     \<Longrightarrow> firstPlacement k g row placed \<noteq> None"
proof (induction k arbitrary: row placed ext)
  case 0
  then show ?case by simp
next
  case (Suc k)
  from placementUpTo_length [OF Suc.prems(1)] Suc.prems(2) have "length ext = Suc k" by simp
  then obtain q ext' where ext: "ext = q # ext'" by (cases ext) auto
  have v': "placementUpTo g (Suc row + k) ((placed @ [q]) @ ext')"
    using Suc.prems(1) ext by simp
  from placementUpTo_prefix [OF v'] Suc.prems(2)
  have "placementUpTo g (Suc row) (placed @ [q])" by simp
  then have q: "fst q = row" and c: "snd q < 8" and safe: "safeCell g placed row (snd q)"
    by (simp_all add: placementUpTo_snoc)
  have qeq: "q = (row, snd q)" using q by (cases q) simp
  have "firstPlacement k g (Suc row) (placed @ [q]) \<noteq> None"
    using Suc.IH [OF v'] Suc.prems(2) by simp
  with qeq have "firstPlacement k g (row + 1) (placed @ [(row, snd q)]) \<noteq> None" by simp
  with safe c have "find (\<lambda>col. safeCell g placed row col
                      \<and> firstPlacement k g (row + 1) (placed @ [(row, col)]) \<noteq> None)
              [0..<BOARD_SIZE] \<noteq> None"
    unfolding find_upt_None BOARD_SIZE_def by blast
  then obtain c0 where
    f: "find (\<lambda>col. safeCell g placed row col
                      \<and> firstPlacement k g (row + 1) (placed @ [(row, col)]) \<noteq> None)
              [0..<BOARD_SIZE] = Some c0"
    by blast
  from find_upt_least [OF f] f show ?case by simp
qed

lemma firstPlacement_least:
  "firstPlacement k g row placed = Some (placed @ ext) \<Longrightarrow> placementUpTo g row placed
     \<Longrightarrow> placementUpTo g (row + k) (placed @ ext')
     \<Longrightarrow> map snd ext \<le> map snd ext'"
proof (induction k arbitrary: row placed ext ext')
  case 0
  then show ?case by simp
next
  case (Suc k)
  have len: "length placed = row" using Suc.prems(2) by (rule placementUpTo_length)
  let ?P = "\<lambda>col. safeCell g placed row col
                      \<and> firstPlacement k g (row + 1) (placed @ [(row, col)]) \<noteq> None"
  from Suc.prems(1) obtain c where
    f: "find ?P [0..<BOARD_SIZE] = Some c"
    and r: "firstPlacement k g (row + 1) (placed @ [(row, c)]) = Some (placed @ ext)"
    by (auto split: option.splits)
  from find_upt_least [OF f] have c: "c < 8" and safe: "safeCell g placed row c"
    and least: "\<forall>c' < c. \<not> ?P c'"
    by (simp_all add: BOARD_SIZE_def)
  have v1: "placementUpTo g (Suc row) (placed @ [(row, c)])"
    using Suc.prems(2) c safe by (simp add: placementUpTo_snoc)
  from firstPlacement_sound [OF _ r] v1 obtain rest where
    "placed @ ext = (placed @ [(row, c)]) @ rest" by auto
  then have ext: "ext = (row, c) # rest" by simp
  from placementUpTo_length [OF Suc.prems(3)] len have "length ext' = Suc k" by simp
  then obtain q rest' where ext': "ext' = q # rest'" by (cases ext') auto
  have v': "placementUpTo g (Suc row + k) ((placed @ [q]) @ rest')"
    using Suc.prems(3) ext' by simp
  from placementUpTo_prefix [OF v'] len
  have vq: "placementUpTo g (Suc row) (placed @ [q])" by simp
  then have q: "fst q = row" and safe': "safeCell g placed row (snd q)"
    by (simp_all add: placementUpTo_snoc)
  have qeq: "q = (row, snd q)" using q by (cases q) simp
  have "firstPlacement k g (Suc row) (placed @ [q]) \<noteq> None"
    using firstPlacement_complete [OF v'] len by simp
  with qeq safe' have "?P (snd q)" by simp
  with least have ge: "c \<le> snd q" by (meson not_le)
  show ?case
  proof (cases "c = snd q")
    case True
    with qeq have qc: "q = (row, c)" by simp
    from r ext have "firstPlacement k g (Suc row) ((placed @ [(row, c)])) =
                       Some ((placed @ [(row, c)]) @ rest)" by simp
    from Suc.IH [OF this] v1 v' qc have "map snd rest \<le> map snd rest'" by simp
    with ext ext' qc show ?thesis by simp
  next
    case False
    with ge have "c < snd q" by simp
    with ext ext' show ?thesis by simp
  qed
qed

lemma findSolution_firstPlacement: "findSolution g = firstPlacement BOARD_SIZE g 0 []"
proof -
  have "initSolver = solverOf g []" by (simp add: initSolver_def solverOf_def)
  with placeQueens_refines [of initSolver g 0]
  have "placeQueens g 0 initSolver =
          (case firstPlacement 8 g 0 [] of
             None \<Rightarrow> (False, initSolver)
           | Some s \<Rightarrow> (True, solverOf g s))"
    by simp
  then show ?thesis
    by (simp add: findSolution_def BOARD_SIZE_def solverOf_fields split: option.splits)
qed

lemma placementUpTo_Nil: "placementUpTo g 0 []"
  by (simp add: placementUpTo_def)

lemma wf_solvableGrid: "wf_grid solvableGrid"
  by code_simp

lemma wf_unsolvableGrid: "wf_grid unsolvableGrid"
  by code_simp

lemma unsolvable_solution: "findSolution unsolvableGrid = None"
  by code_simp

lemma readCell_in_range:
  "wf_grid g \<Longrightarrow> row < 8 \<Longrightarrow> col < 8 \<Longrightarrow> readCell g row col = Inr (g ! row ! col)"
  by (simp add: readCell_def wf_grid_iff)

lemma regionTaken_in_range:
  "wf_grid g \<Longrightarrow> \<forall>q \<in> set qs. fst q < 8 \<and> snd q < 8
     \<Longrightarrow> regionTaken g r qs = Inr (r \<in> cellAt g ` set qs)"
proof (induction qs)
  case Nil
  then show ?case by simp
next
  case (Cons q qs)
  then have "readCell g (fst q) (snd q) = Inr (cellAt g q)"
    by (simp add: readCell_in_range cellAt_def)
  with Cons show ?case by auto
qed

lemma validate_safe:
  assumes wf: "wf_grid g" and v: "placementUpTo g row placed" and row: "row < 8"
    and col: "col < 8" and safe: "safeCell g placed row col"
  shows "validateQueenPlacement \<lparr>regions = g, solution = x\<rparr> row col placed = Inr Valid"
proof -
  have rows: "\<forall>q \<in> set placed. fst q < row" using v by (blast dest: placementUpTo_rows)
  have cols: "\<forall>q \<in> set placed. snd q < 8" using v by (simp add: placementUpTo_def)
  have r1: "readCell g row col = Inr (g ! row ! col)"
    using wf row col by (rule readCell_in_range)
  have r2: "\<not> list_ex (\<lambda>queen. fst queen = row) placed"
    using rows by (auto simp: list_ex_iff)
  have r3: "\<not> list_ex (\<lambda>queen. snd queen = col) placed"
    using safe by (auto simp: list_ex_iff safeCell_def)
  have "\<forall>q \<in> set placed. fst q < 8 \<and> snd q < 8" using rows cols row by auto
  from regionTaken_in_range [OF wf this]
  have r4: "regionTaken g (g ! row ! col) placed = Inr False"
    using safe by (simp add: safeCell_def)
  have r5: "\<not> list_ex (\<lambda>queen. \<bar>int (fst queen) - int row\<bar> = \<bar>int (snd queen) - int col\<bar>) placed"
    using safe by (simp add: safeCell_def onDiagonal_def)
  show ?thesis
    unfolding validateQueenPlacement_def using r1 r2 r3 r4 r5 by simp
qed

section \<open>The claims\<close>

text \<open>
  C1. \<open>generatePuzzleBoard\<close> is to return only boards with a solution, generating anew
  until \<open>findSolution\<close> succeeds. The code calls \<open>generateRegions\<close> and \<open>findSolution\<close>
  once each: on the draws \<open>unsolvableTape\<close> it returns a board whose grid meets the
  generator's contract and whose \<open>solution\<close> is \<open>null\<close>.
\<close>

theorem generatePuzzleBoard_null_solution:
  "generatePuzzleBoard unsolvableTape = Some (\<lparr>regions = unsolvableGrid, solution = None\<rparr>, [])
   \<and> validRegions unsolvableGrid"
  by code_simp

text \<open>
  C2. Every grid \<open>generateRegions\<close> returns is to have 8 distinct region ids, each
  region of at least 3 cells and 4-connected. On the draws \<open>retryTape\<close> the code
  returns \<open>retryGrid\<close>: region 6 has no cell, 7 ids are in use, and region 7 is the
  corner \<open>(7,7)\<close> together with a block that does not touch it.
\<close>

theorem generateRegions_invalid_grid:
  "generateRegions retryTape = Some (retryGrid, [])
   \<and> card (regionIds retryGrid) = 7
   \<and> cellsOf retryGrid 6 = []
   \<and> cellsOf retryGrid 7 = [(6, 4), (6, 5), (7, 4), (7, 5), (7, 7)]
   \<and> \<not> connected4 (cellsOf retryGrid 7)
   \<and> \<not> validRegions retryGrid"
  by code_simp

text \<open>
  C3. A retry of a region that came out too small is to reset the cells just assigned
  and leave completed regions alone. After seven iterations on \<open>retryTape\<close> the grid is
  \<open>pocketGrid\<close>, regions 0 to 6 complete. The eighth iteration starts region 7 at
  \<open>(7,7)\<close>, gets one cell and retries: in \<open>shortGrid\<close> the cell \<open>(7,7)\<close> still holds
  region 7 and the four cells of region 6 are \<open>null\<close>.
\<close>

theorem regionIter_retry_resets_previous_region:
  "regionIters 7 0 emptyRegions {} retryTape
     = Some (7, pocketGrid, {0, 1, 2, 3, 4, 5, 6}, [7, 7, 0, 0, 6, 4, 1, 0, 0])
   \<and> regionIter 7 pocketGrid {0, 1, 2, 3, 4, 5, 6} [7, 7, 0, 0, 6, 4, 1, 0, 0]
     = Some (7, shortGrid, {0, 1, 2, 3, 4, 5, 6}, [6, 4, 1, 0, 0])
   \<and> cellsOf pocketGrid 6 = [(6, 4), (6, 5), (7, 4), (7, 5)]
   \<and> cellsOf shortGrid 6 = []
   \<and> pocketGrid ! 7 ! 7 = Null
   \<and> shortGrid ! 7 ! 7 = Region 7"
  by code_simp

text \<open>
  C4. The retries of region generation are to be bounded, and \<open>generateRegions\<close> is to
  terminate on every run. After the draws \<open>fullTape\<close> six regions fill the grid: four
  blocks of 3 by 4 and two of 2 by 4. The loop goes on to region 6, and the search for an
  unassigned start cell finds none, whatever is drawn next: the call never returns, and
  never reaches the check of the number of regions after the loop.
\<close>

theorem generateRegions_hangs_on_full_grid:
  "regionIters 6 0 emptyRegions {} fullTape = Some (6, fullGrid, {0, 1, 2, 3, 4, 5}, [])
   \<and> allCellsFilled fullGrid
   \<and> (\<forall>t. pickStart fullGrid t = None)
   \<and> (\<forall>t. generateRegions (fullTape @ t) = None)"
  using full_run full_filled fullTape_never_returns pickStart_full [OF full_filled] by blast

text \<open>
  C5. For every 8 by 8 grid, \<open>findSolution\<close> is the search that tries the columns of
  each row in ascending order. A result is a valid placement: 8 cells, one per row 0 to
  7 in row order, columns pairwise distinct, regions pairwise distinct, no two cells on
  a common diagonal; it is the first one, its columns lexicographically least among the
  valid placements. The result is \<open>null\<close> exactly when the grid has no valid placement.
\<close>

theorem findSolution_first_valid_placement:
  assumes "wf_grid g"
  shows "findSolution g = firstPlacement BOARD_SIZE g 0 []
       \<and> (\<forall>s. findSolution g = Some s \<longrightarrow>
             validPlacement g s \<and> (\<forall>s'. validPlacement g s' \<longrightarrow> map snd s \<le> map snd s'))
       \<and> (findSolution g = None \<longleftrightarrow> (\<nexists>s. validPlacement g s))"
proof (intro conjI allI impI)
  show "findSolution g = firstPlacement BOARD_SIZE g 0 []"
    by (rule findSolution_firstPlacement)
next
  fix s
  assume "findSolution g = Some s"
  then have fp: "firstPlacement 8 g 0 [] = Some s"
    by (simp add: findSolution_firstPlacement BOARD_SIZE_def)
  from firstPlacement_sound [OF placementUpTo_Nil fp]
  show "validPlacement g s" by (simp add: validPlacement_def BOARD_SIZE_def)
next
  fix s s'
  assume "findSolution g = Some s" and v': "validPlacement g s'"
  then have fp: "firstPlacement 8 g 0 [] = Some ([] @ s)"
    by (simp add: findSolution_firstPlacement BOARD_SIZE_def)
  have "placementUpTo g (0 + 8) ([] @ s')"
    using v' by (simp add: validPlacement_def BOARD_SIZE_def)
  from firstPlacement_least [of 8 g 0 "[]" s s'] fp placementUpTo_Nil this
  show "map snd s \<le> map snd s'" by simp
next
  show "findSolution g = None \<longleftrightarrow> (\<nexists>s. validPlacement g s)"
  proof
    assume n: "findSolution g = None"
    show "\<nexists>s. validPlacement g s"
    proof
      assume "\<exists>s. validPlacement g s"
      then obtain s where "placementUpTo g (0 + 8) ([] @ s)"
        by (auto simp: validPlacement_def BOARD_SIZE_def)
      from firstPlacement_complete [OF this] n show False
        by (simp add: findSolution_firstPlacement BOARD_SIZE_def)
    qed
  next
    assume no: "\<nexists>s. validPlacement g s"
    show "findSolution g = None"
    proof (rule ccontr)
      assume "findSolution g \<noteq> None"
      then obtain s where "firstPlacement 8 g 0 [] = Some s"
        by (auto simp: findSolution_firstPlacement BOARD_SIZE_def)
      from firstPlacement_sound [OF placementUpTo_Nil this] no show False
        by (simp add: validPlacement_def BOARD_SIZE_def)
    qed
  qed
qed

theorem findSolution_first_valid_placement_witness:
  "wf_grid solvableGrid \<and> findSolution solvableGrid = Some solvableSolution
   \<and> validPlacement solvableGrid solvableSolution
   \<and> wf_grid unsolvableGrid \<and> findSolution unsolvableGrid = None
   \<and> (\<forall>s. \<not> validPlacement unsolvableGrid s)"
  using findSolution_first_valid_placement [OF wf_solvableGrid]
    findSolution_first_valid_placement [OF wf_unsolvableGrid]
    wf_solvableGrid wf_unsolvableGrid solvable_solution unsolvable_solution
  by simp

text \<open>
  C6. The eighth valid marker of a player is to reset the room: \<open>started\<close> false, the
  board cleared, both players' ready flags, markers and flags cleared. In \<open>playState\<close>
  Alice holds the first seven cells of the solution and Bob the first six. Alice's
  eighth queen ends the round and resets both players, but \<open>board\<close> keeps the board of
  the round; \<open>restartGame\<close> on the same state sets it to \<open>null\<close>. Bob's seventh queen
  resets nothing.
\<close>

theorem placeQueen_win_keeps_board:
  "placeQueen ''alice'' ''ROOM01'' 7 4 playState =
     Inr (\<lparr>gameRooms = [(''ROOM01'', wonRoom)], timers = []\<rparr>,
          [ToRoom ''ROOM01'' (QueenPlaced ''alice'' 7 4), ToRoom ''ROOM01'' (GameWon ''alice'' ''Alice'')])
   \<and> board wonRoom = Some solvableBoard
   \<and> restartGame ''alice'' ''ROOM01'' playState =
       Inr (\<lparr>gameRooms = [(''ROOM01'', wonRoom\<lparr>board := None\<rparr>)], timers = []\<rparr>,
            [ToRoom ''ROOM01'' GameRestarted])
   \<and> placeQueen ''bob'' ''ROOM01'' 6 1 playState =
     Inr (\<lparr>gameRooms =
             [(''ROOM01'', playRoom\<lparr>players := [alice, bob\<lparr>queens := take 7 solvableSolution\<rparr>]\<rparr>)],
           timers = []\<rparr>,
          [ToRoom ''ROOM01'' (QueenPlaced ''bob'' 6 1)])"
  by code_simp

text \<open>
  C7. The delayed \<open>gameStart\<close> is to be dropped when the room was reset or destroyed or
  a member left before the timer fires, by a generation token. The code has no token
  and cancels nothing: the callback holds the room id and the board of the ready-up.
  A handler call that returns leaves the pending callbacks as they were (\<open>playerReady\<close>
  at most appends one, together with \<open>gameCountdown\<close>), and a callback that runs emits
  \<open>gameStart\<close> with its board to its room id without reading the room. A call that
  throws returns no state, and nothing is stated of it.
\<close>

theorem gameStart_delivery_never_cancelled:
  "timers (fst (createGame sid rid name st)) = timers st
   \<and> timers (fst (markCell sid rid row col st)) = timers st
   \<and> timers (fst (disconnect sid st)) = timers st
   \<and> (\<forall>st' evs. joinGame sid rid name st = Inr (st', evs) \<longrightarrow> timers st' = timers st)
   \<and> (\<forall>st' evs. restartGame sid rid st = Inr (st', evs) \<longrightarrow> timers st' = timers st)
   \<and> (\<forall>st' evs. newPuzzle sid rid st = Inr (st', evs) \<longrightarrow> timers st' = timers st)
   \<and> (\<forall>st' evs. placeQueen sid rid row col st = Inr (st', evs) \<longrightarrow> timers st' = timers st)
   \<and> (\<forall>st' evs t'. playerReady sid rid rdy t st = Some (Inr (st', evs, t')) \<longrightarrow>
          timers st' = timers st
          \<or> (\<exists>b. timers st' = timers st @ [(rid, b)] \<and> generatePuzzleBoard t = Some (b, t')
                \<and> evs = [ToRoom rid (PlayerReadyChanged sid rdy), ToRoom rid GameCountdown]))
   \<and> (\<forall>r b ts. timers st = (r, b) # ts \<longrightarrow>
          timerFires st = (st\<lparr>timers := ts\<rparr>, [ToRoom r (GameStart b)]))"
proof -
  have "\<forall>r b ts. timers st = (r, b) # ts \<longrightarrow>
          timerFires st = (st\<lparr>timers := ts\<rparr>, [ToRoom r (GameStart b)])"
    by (simp add: timerFires_def)
  moreover have "\<forall>st' evs. placeQueen sid rid row col st = Inr (st', evs) \<longrightarrow> timers st' = timers st"
    using timers_placeQueen by blast
  moreover have "\<forall>st' evs. joinGame sid rid name st = Inr (st', evs) \<longrightarrow> timers st' = timers st"
    using timers_joinGame by blast
  moreover have "\<forall>st' evs. restartGame sid rid st = Inr (st', evs) \<longrightarrow> timers st' = timers st"
    using timers_restartGame by blast
  moreover have "\<forall>st' evs. newPuzzle sid rid st = Inr (st', evs) \<longrightarrow> timers st' = timers st"
    using timers_newPuzzle by blast
  moreover have "\<forall>st' evs t'. playerReady sid rid rdy t st = Some (Inr (st', evs, t')) \<longrightarrow>
          timers st' = timers st
          \<or> (\<exists>b. timers st' = timers st @ [(rid, b)] \<and> generatePuzzleBoard t = Some (b, t')
                \<and> evs = [ToRoom rid (PlayerReadyChanged sid rdy), ToRoom rid GameCountdown])"
    using timers_playerReady by blast
  ultimately show ?thesis
    by (simp only: timers_markCell timers_createGame timers_disconnect simp_thms)
qed

text \<open>
  Both players ready, then \<open>restartGame\<close>: the room is reset, and the timer still
  delivers the board. The same after both players disconnected and the room is gone.
\<close>

theorem stale_gameStart_delivered:
  "playerReady ''bob'' ''ROOM01'' True solvableTape lobbyState =
     Some (Inr (countdownState,
                [ToRoom ''ROOM01'' (PlayerReadyChanged ''bob'' True), ToRoom ''ROOM01'' GameCountdown],
                []))
   \<and> restartGame ''alice'' ''ROOM01'' countdownState
       = Inr (restartedState, [ToRoom ''ROOM01'' GameRestarted])
   \<and> timerFires restartedState =
       (restartedState\<lparr>timers := []\<rparr>, [ToRoom ''ROOM01'' (GameStart solvableBoard)])
   \<and> gameRooms (fst (disconnect ''bob'' (fst (disconnect ''alice'' countdownState)))) = []
   \<and> snd (timerFires (fst (disconnect ''bob'' (fst (disconnect ''alice'' countdownState)))))
       = [ToRoom ''ROOM01'' (GameStart solvableBoard)]"
proof -
  have "restartGame ''alice'' ''ROOM01'' countdownState
          = Inr (restartedState, [ToRoom ''ROOM01'' GameRestarted])"
    by code_simp
  moreover have "timerFires restartedState =
       (restartedState\<lparr>timers := []\<rparr>, [ToRoom ''ROOM01'' (GameStart solvableBoard)])"
    by (simp add: timerFires_def restartedState_def)
  moreover have "fst (disconnect ''bob'' (fst (disconnect ''alice'' countdownState)))
                   = \<lparr>gameRooms = [], timers = [(''ROOM01'', solvableBoard)]\<rparr>"
    by code_simp
  ultimately show ?thesis using countdown_reached by (simp add: timerFires_def)
qed

theorem gameStart_delivery_never_cancelled_witness:
  "timers countdownState = (''ROOM01'', solvableBoard) # []
   \<and> timerFires countdownState =
       (countdownState\<lparr>timers := []\<rparr>, [ToRoom ''ROOM01'' (GameStart solvableBoard)])
   \<and> restartGame ''alice'' ''ROOM01'' countdownState
       = Inr (restartedState, [ToRoom ''ROOM01'' GameRestarted])
   \<and> timers restartedState = [(''ROOM01'', solvableBoard)]
   \<and> newPuzzle ''alice'' ''ROOM01'' countdownState
       = Inr (restartedState, [ToRoom ''ROOM01'' NewPuzzleRequested])
   \<and> joinGame ''carol'' ''ROOM01'' ''Carol'' countdownState
       = Inr (countdownState, [ToSocket ''carol'' (Error ''Game room is full'')])
   \<and> timers (fst (disconnect ''alice'' countdownState)) = [(''ROOM01'', solvableBoard)]
   \<and> (\<exists>st' evs. placeQueen ''alice'' ''ROOM01'' 0 0 countdownState = Inr (st', evs)
         \<and> timers st' = [(''ROOM01'', solvableBoard)])
   \<and> (\<exists>st' evs t'. playerReady ''bob'' ''ROOM01'' True solvableTape lobbyState
           = Some (Inr (st', evs, t'))
         \<and> timers st' = timers lobbyState @ [(''ROOM01'', solvableBoard)])"
proof -
  have t: "timers countdownState = (''ROOM01'', solvableBoard) # []"
    by (simp add: countdownState_def)
  obtain st' evs where pq: "placeQueen ''alice'' ''ROOM01'' 0 0 countdownState = Inr (st', evs)"
    by (simp add: placeQueen_def countdownState_def findPlayer_def newPlayer_def
        validateQueenPlacement_def readCell_def solvableBoard_def solvableGrid_def cells4_def)
  have rs: "restartGame ''alice'' ''ROOM01'' countdownState
              = Inr (restartedState, [ToRoom ''ROOM01'' GameRestarted])"
    by code_simp
  have np: "newPuzzle ''alice'' ''ROOM01'' countdownState
              = Inr (restartedState, [ToRoom ''ROOM01'' NewPuzzleRequested])"
    by code_simp
  have jg: "joinGame ''carol'' ''ROOM01'' ''Carol'' countdownState
              = Inr (countdownState, [ToSocket ''carol'' (Error ''Game room is full'')])"
    by code_simp
  note inst = gameStart_delivery_never_cancelled
    [of "''alice''" "''ROOM01''" "''Alice''" countdownState 0 0 True "[]"]
  have a: "timerFires countdownState =
       (countdownState\<lparr>timers := []\<rparr>, [ToRoom ''ROOM01'' (GameStart solvableBoard)])"
    using inst t by blast
  have b: "timers st' = [(''ROOM01'', solvableBoard)]" using inst pq t by auto
  have c: "timers restartedState = [(''ROOM01'', solvableBoard)]" using inst rs t by auto
  have d: "timers (fst (disconnect ''alice'' countdownState)) = [(''ROOM01'', solvableBoard)]"
    using inst t by simp
  have e: "timers countdownState = timers lobbyState @ [(''ROOM01'', solvableBoard)]"
    by (simp add: countdownState_def lobbyState_def)
  show ?thesis using t a b c d e pq rs np jg countdown_reached by auto
qed

text \<open>
  C8. For every board \<open>generatePuzzleBoard\<close> returns with a solution, each cell of the
  solution, taken in row order, passes \<open>validateQueenPlacement\<close> against the cells
  before it.
\<close>

theorem solution_replay_accepted:
  assumes gen: "generatePuzzleBoard t = Some (b, t')" and s: "solution b = Some s"
  shows "length s = 8 \<and>
     (\<forall>i < length s. validateQueenPlacement b (fst (s ! i)) (snd (s ! i)) (take i s) = Inr Valid)"
proof -
  from gen obtain g where g: "generateRegions t = Some (g, t')"
    and b: "b = \<lparr>regions = g, solution = findSolution g\<rparr>"
    unfolding generatePuzzleBoard_def by (auto split: option.splits)
  from generateRegions_result [OF g] have wf: "wf_grid g" by simp
  from s b have fs: "findSolution g = Some s" by simp
  with findSolution_firstPlacement [of g] have "firstPlacement 8 g 0 [] = Some s"
    by (simp add: BOARD_SIZE_def)
  from firstPlacement_sound [OF placementUpTo_Nil this] have v: "placementUpTo g 8 s" by simp
  then have len: "length s = 8" by (rule placementUpTo_length)
  have "validateQueenPlacement b (fst (s ! i)) (snd (s ! i)) (take i s) = Inr Valid"
    if i: "i < length s" for i
  proof -
    have "placementUpTo g 8 (take (Suc i) s @ drop (Suc i) s)" using v by simp
    from placementUpTo_prefix [OF this] i
    have "placementUpTo g (Suc i) (take i s @ [s ! i])"
      by (simp add: take_Suc_conv_app_nth)
    then have "placementUpTo g i (take i s)" and "fst (s ! i) = i" and "snd (s ! i) < 8"
      and "safeCell g (take i s) i (snd (s ! i))"
      by (simp_all add: placementUpTo_snoc)
    with validate_safe [OF wf, of i "take i s" "snd (s ! i)" "findSolution g"] i len b
    show ?thesis by simp
  qed
  with len show ?thesis by simp
qed

theorem solution_replay_accepted_witness:
  "generatePuzzleBoard solvableTape = Some (solvableBoard, [])
   \<and> solution solvableBoard = Some solvableSolution
   \<and> length solvableSolution = 8
   \<and> list_all (\<lambda>i. validateQueenPlacement solvableBoard (fst (solvableSolution ! i))
                      (snd (solvableSolution ! i)) (take i solvableSolution) = Inr Valid)
        [0..<8]"
proof -
  have s: "solution solvableBoard = Some solvableSolution" by (simp add: solvableBoard_def)
  from solution_replay_accepted [OF solvable_board s] solvable_board s
  show ?thesis by (simp add: list_all_iff)
qed

text \<open>
  C9. In a started room, for a member and a cell that does not hold the member's own
  queen, \<open>markCell\<close> twice on the same cell leaves the member's set of marks as it was;
  the first call removes the cell when it is marked (\<open>cellUnmarked\<close>) and adds it when
  it is not (\<open>cellMarked\<close>).
\<close>

theorem markCell_twice_restores_flags:
  assumes rm: "map_of (gameRooms st) rid = Some rm"
    and started: "gameStarted rm"
    and p: "findPlayer sid rm = Some p"
    and noqueen: "(row, col) \<notin> set (queens p)"
  shows "marksOf sid rid (fst (markCell sid rid row col (fst (markCell sid rid row col st))))
           = marksOf sid rid st
       \<and> marksOf sid rid (fst (markCell sid rid row col st))
           = (if (row, col) \<in> marksOf sid rid st then marksOf sid rid st - {(row, col)}
              else insert (row, col) (marksOf sid rid st))
       \<and> snd (markCell sid rid row col st)
           = [ToRoom rid ((if (row, col) \<in> marksOf sid rid st then CellUnmarked else CellMarked)
                sid row col)]"
proof -
  let ?st1 = "fst (markCell sid rid row col st)"
  have m0: "marksOf sid rid st = set (marks p)"
    using rm p by (simp add: marksOf_def)
  from markCell_once [OF rm started p noqueen] obtain rm1 p1 where
    rm1: "map_of (gameRooms ?st1) rid = Some rm1" and s1: "gameStarted rm1"
    and p1: "findPlayer sid rm1 = Some p1" and q1: "queens p1 = queens p"
    and m1: "set (marks p1) = (if (row, col) \<in> set (marks p) then set (marks p) - {(row, col)}
                               else insert (row, col) (set (marks p)))"
    and e1: "snd (markCell sid rid row col st) =
          [ToRoom rid ((if (row, col) \<in> set (marks p) then CellUnmarked else CellMarked) sid row col)]"
    by blast
  have nq1: "(row, col) \<notin> set (queens p1)" using q1 noqueen by simp
  from markCell_once [OF rm1 s1 p1 nq1] obtain rm2 p2 where
    rm2: "map_of (gameRooms (fst (markCell sid rid row col ?st1))) rid = Some rm2"
    and p2: "findPlayer sid rm2 = Some p2"
    and m2: "set (marks p2) = (if (row, col) \<in> set (marks p1) then set (marks p1) - {(row, col)}
                               else insert (row, col) (set (marks p1)))"
    by blast
  have a: "marksOf sid rid ?st1 = set (marks p1)" using rm1 p1 by (simp add: marksOf_def)
  have b: "marksOf sid rid (fst (markCell sid rid row col ?st1)) = set (marks p2)"
    using rm2 p2 by (simp add: marksOf_def)
  have c: "set (marks p2) = set (marks p)" using m1 m2 by auto
  show ?thesis using a b c m0 m1 e1 by simp
qed

theorem markCell_twice_restores_flags_witness:
  "map_of (gameRooms playState) ''ROOM01'' = Some playRoom \<and> gameStarted playRoom
   \<and> findPlayer ''alice'' playRoom = Some alice \<and> (2, 2) \<notin> set (queens alice)
   \<and> marksOf ''alice'' ''ROOM01''
         (fst (markCell ''alice'' ''ROOM01'' 2 2 (fst (markCell ''alice'' ''ROOM01'' 2 2 playState))))
       = marksOf ''alice'' ''ROOM01'' playState
   \<and> marksOf ''alice'' ''ROOM01'' (fst (markCell ''alice'' ''ROOM01'' 2 2 playState)) = {(0, 1), (2, 2)}
   \<and> snd (markCell ''alice'' ''ROOM01'' 2 2 playState) = [ToRoom ''ROOM01'' (CellMarked ''alice'' 2 2)]"
proof -
  have h1: "map_of (gameRooms playState) ''ROOM01'' = Some playRoom"
    by (simp add: playState_def)
  have h2: "gameStarted playRoom" by (simp add: playRoom_def)
  have h3: "findPlayer ''alice'' playRoom = Some alice"
    by (simp add: findPlayer_def playRoom_def alice_def)
  have h4: "(2, 2) \<notin> set (queens alice)" by (simp add: alice_def solvableSolution_def)
  have m: "marksOf ''alice'' ''ROOM01'' playState = {(0, 1)}"
    using h1 h3 by (simp add: marksOf_def alice_def)
  from markCell_twice_restores_flags [OF h1 h2 h3 h4] h1 h2 h3 h4 m
  show ?thesis by auto
qed

text \<open>
  C10. \<open>playerReady\<close> for an existing room from a socket that is no player of the
  room changes nothing and emits nothing.
\<close>

theorem playerReady_nonmember_no_effect:
  "map_of (gameRooms st) rid = Some rm \<Longrightarrow> findPlayer sid rm = None
     \<Longrightarrow> playerReady sid rid rdy t st = Some (Inr (st, [], t))"
  by (simp add: playerReady_def getRoom_def)

theorem playerReady_nonmember_no_effect_witness:
  "map_of (gameRooms playState) ''ROOM01'' = Some playRoom
   \<and> findPlayer ''mallory'' playRoom = None
   \<and> playerReady ''mallory'' ''ROOM01'' True solvableTape playState
       = Some (Inr (playState, [], solvableTape))"
proof -
  have h1: "map_of (gameRooms playState) ''ROOM01'' = Some playRoom"
    by (simp add: playState_def)
  have h2: "findPlayer ''mallory'' playRoom = None"
    by (simp add: findPlayer_def playRoom_def alice_def bob_def)
  from playerReady_nonmember_no_effect [OF h1 h2] h1 h2 show ?thesis by simp
qed

end
